theory Spec2Isabelle
  imports Complex_Main "HOL-Library.Word" "HOL-Library.Signed_Division" "HOL-Library.Log_Nat"
begin

section \<open>The debug-information tree as llvm-locstats reads it\<close>

text \<open>
  llvm-locstats.cpp walks the tree of debug-information entries (DIEs) of every compile
  unit through the interface of \<open>DWARFDie\<close>: \<open>getTag\<close>, \<open>find\<close>, \<open>getAddressRanges\<close>,
  \<open>getParent\<close>, \<open>getFirstChild\<close> and \<open>getSibling\<close>. The model holds what these calls
  return. Only the tags the program compares against are named.
\<close>

datatype dw_tag =
    DW_TAG_null
  | DW_TAG_compile_unit
  | DW_TAG_subprogram
  | DW_TAG_lexical_block
  | DW_TAG_inlined_subroutine
  | DW_TAG_variable
  | DW_TAG_formal_parameter
  | DW_TAG_subroutine_type
  | DW_TAG_other nat

type_synonym uint64_t = "64 word"

text \<open>One element of \<open>DWARFAddressRangesVector\<close>.\<close>

record DWARFAddressRange =
  LowPC :: uint64_t
  HighPC :: uint64_t

text \<open>
  One entry of a location list of \<open>.debug_loc\<close>. \<open>Loc\<close> is the entry's expression as
  the \<open>DWARFExpression\<close> iterator presents it: the codes of its operations, in order.
\<close>

record LocationEntry =
  Begin :: uint64_t
  End :: uint64_t
  Loc :: "8 word list"

text \<open>
  The value of \<open>DW_AT_location\<close>. \<open>getAsSectionOffset\<close> answers for a section offset
  only, and \<open>getLocationListAtOffset\<close> may find no list at that offset (\<open>None\<close>).
  Every other form is a single location expression.
\<close>

datatype location =
    SectionOffset "LocationEntry list option"
  | SingleLocation

text \<open>
  What \<open>find\<close> answers for the attributes the program asks about (a flag is \<open>True\<close>
  when the attribute is present), and what \<open>getAddressRanges\<close> answers: \<open>None\<close> is
  the error of \<open>Expected\<close>, \<open>Some\<close> the vector, which may be empty.
\<close>

record die_attrs =
  DW_AT_declaration :: bool
  DW_AT_artificial :: bool
  DW_AT_external :: bool
  DW_AT_inline :: bool
  DW_AT_const_value :: bool
  DW_AT_location :: "location option"
  DW_AT_low_pc :: "uint64_t option"
  AddressRanges :: "DWARFAddressRange list option"

datatype DWARFDie = Die (getTag: dw_tag) (attrs: die_attrs) (children: "DWARFDie list")

text \<open>The four toggles of the command line that the traversal reads.\<close>

record options =
  OnlyFormalParameters :: bool
  OnlyVariables :: bool
  IgnoreInlined :: bool
  IgnoreEntryValues :: bool

section \<open>Doubles and their conversion to int\<close>

text \<open>
  A \<open>double\<close> is a finite value, an infinity or a NaN. A finite value is the rational
  number it denotes. Every arithmetic operation and every conversion to \<open>double\<close>
  rounds its exact result to the nearest number of the binary64 format, halfway cases
  to the even significand, as IEEE 754 prescribes: a number of the format is an integer
  multiple of its quantum, a power of two that leaves the significand 53 bits and is
  never below \<open>2 ^ - 1074\<close>, and a result that rounds to \<open>2 ^ 1024\<close> or beyond is an
  infinity. The sign of zero is not modelled: no result of the program depends on it.
\<close>

datatype double = Finite rat | PosInf | NegInf | NaN

definition signed_inf :: "bool \<Rightarrow> double" where
  "signed_inf positive = (if positive then PosInf else NegInf)"

text \<open>The integer part of the binary logarithm of a positive rational number.\<close>

definition ilog2 :: "rat \<Rightarrow> int" where
  "ilog2 x = (if 1 \<le> x then bitlen \<lfloor>x\<rfloor> - 1 else - bitlen (\<lceil>1 / x\<rceil> - 1))"

definition quantum :: "rat \<Rightarrow> rat" where
  "quantum x = 2 powi (max (ilog2 \<bar>x\<bar> - 52) (- 1074))"

definition round_to_even :: "rat \<Rightarrow> int" where
  "round_to_even r =
     (if r - of_int \<lfloor>r\<rfloor> < 1 / 2 then \<lfloor>r\<rfloor>
      else if 1 / 2 < r - of_int \<lfloor>r\<rfloor> then \<lfloor>r\<rfloor> + 1
      else if even \<lfloor>r\<rfloor> then \<lfloor>r\<rfloor> else \<lfloor>r\<rfloor> + 1)"

definition binary64 :: "rat \<Rightarrow> rat" where
  "binary64 x = (if x = 0 then 0 else of_int (round_to_even (x / quantum x)) * quantum x)"

definition to_double :: "rat \<Rightarrow> double" where
  "to_double x =
     (if 2 ^ 1024 \<le> \<bar>binary64 x\<bar> then signed_inf (0 < x) else Finite (binary64 x))"

fun double_add :: "double \<Rightarrow> double \<Rightarrow> double" where
  "double_add (Finite a) (Finite b) = to_double (a + b)"
| "double_add NaN _ = NaN"
| "double_add _ NaN = NaN"
| "double_add PosInf NegInf = NaN"
| "double_add NegInf PosInf = NaN"
| "double_add PosInf _ = PosInf"
| "double_add _ PosInf = PosInf"
| "double_add NegInf _ = NegInf"
| "double_add _ NegInf = NegInf"

fun double_mul :: "double \<Rightarrow> double \<Rightarrow> double" where
  "double_mul (Finite a) (Finite b) = to_double (a * b)"
| "double_mul NaN _ = NaN"
| "double_mul _ NaN = NaN"
| "double_mul (Finite a) PosInf = (if a = 0 then NaN else signed_inf (0 < a))"
| "double_mul (Finite a) NegInf = (if a = 0 then NaN else signed_inf (a < 0))"
| "double_mul PosInf (Finite b) = (if b = 0 then NaN else signed_inf (0 < b))"
| "double_mul NegInf (Finite b) = (if b = 0 then NaN else signed_inf (b < 0))"
| "double_mul PosInf PosInf = PosInf"
| "double_mul NegInf NegInf = PosInf"
| "double_mul PosInf NegInf = NegInf"
| "double_mul NegInf PosInf = NegInf"

fun double_div :: "double \<Rightarrow> double \<Rightarrow> double" where
  "double_div (Finite a) (Finite b) =
     (if b = 0 then (if a = 0 then NaN else signed_inf (0 < a)) else to_double (a / b))"
| "double_div NaN _ = NaN"
| "double_div _ NaN = NaN"
| "double_div (Finite a) _ = Finite 0"
| "double_div PosInf (Finite b) = signed_inf (0 \<le> b)"
| "double_div NegInf (Finite b) = signed_inf (b < 0)"
| "double_div _ _ = NaN"

text \<open>
  \<open>std::round\<close>: to the nearest integer, halfway cases away from zero. The result is
  a number of the format, so nothing is rounded a second time.
\<close>

fun std_round :: "double \<Rightarrow> double" where
  "std_round (Finite r) =
     Finite (of_int (if 0 \<le> r then \<lfloor>r + 1 / 2\<rfloor> else \<lceil>r - 1 / 2\<rceil>))"
| "std_round d = d"

text \<open>
  The conversion \<open>(int)d\<close> of C++ drops the fractional part. When the truncated value is
  not a value of \<open>int\<close> (32 bits), and for an infinity or a NaN, the behaviour is
  undefined: the model stops with an error there.
\<close>

datatype error = UndefinedConversion

definition truncation :: "rat \<Rightarrow> int" where
  "truncation r = (if 0 \<le> r then \<lfloor>r\<rfloor> else \<lceil>r\<rceil>)"

fun double_to_int :: "double \<Rightarrow> error + int" where
  "double_to_int (Finite r) =
     (if - (2 ^ 31) \<le> truncation r \<and> truncation r < 2 ^ 31 then Inr (truncation r)
      else Inl UndefinedConversion)"
| "double_to_int _ = Inl UndefinedConversion"

text \<open>
  The conversions to \<open>double\<close>: of a \<open>uint64_t\<close> (rounded beyond \<open>2 ^ 53\<close>), of an
  \<open>unsigned\<close> and of an \<open>int\<close> (both exact, having 32 bits).
\<close>

definition double_of_uint64 :: "uint64_t \<Rightarrow> double" where
  "double_of_uint64 w = to_double (of_nat (unat w))"

definition double_of_unsigned :: "32 word \<Rightarrow> double" where
  "double_of_unsigned w = to_double (of_nat (unat w))"

definition double_of_int :: "int \<Rightarrow> double" where
  "double_of_int i = to_double (of_int i)"

section \<open>The statistics\<close>

text \<open>
  \<open>LocStatistics\<close> is a \<open>std::map<int, unsigned long>\<close> (64-bit counts), \<open>CumulNumOfVars\<close>
  an \<open>unsigned\<close> (32 bits) and \<open>TotalAverage\<close> a \<open>double\<close>. The three are passed by
  reference through the traversal; the model passes them as one record and returns it.
\<close>

record stats =
  LocStatistics :: "int \<rightharpoonup> 64 word"
  CumulNumOfVars :: "32 word"
  TotalAverage :: double

definition largest_cov_category :: int where
  "largest_cov_category = 12"

text \<open>\<open>operator[]\<close> of \<open>std::map\<close>: a key that is absent reads as 0.\<close>

definition map_at :: "(int \<rightharpoonup> 64 word) \<Rightarrow> int \<Rightarrow> 64 word" where
  "map_at m k = (case m k of None \<Rightarrow> 0 | Some v \<Rightarrow> v)"

text \<open>\<open>LocStatistics[PercentageKey]++\<close>.\<close>

definition map_incr :: "(int \<rightharpoonup> 64 word) \<Rightarrow> int \<Rightarrow> (int \<rightharpoonup> 64 word)" where
  "map_incr m k = m(k \<mapsto> map_at m k + 1)"

text \<open>
  The category of a truncated percentage (lines 174 to 180). The division is that of
  C++ on \<open>int\<close>, which truncates towards zero. An \<open>int\<close> of the program is an
  integer of HOL: it comes out of a conversion that is defined, so it has 32 bits, and
  dividing it by 10 and adding 1 cannot overflow.
\<close>

definition PercentageKey :: "int \<Rightarrow> int" where
  "PercentageKey CoverageRounded =
     (if CoverageRounded = 0 then 0
      else if CoverageRounded = 100 then largest_cov_category - 1
      else CoverageRounded sdiv 10 + 1)"

section \<open>The coverage of one variable or formal parameter\<close>

text \<open>
  The codes of the two entry-value operations, from the DWARF 5 standard and the GNU
  extension that preceded it.
\<close>

definition DW_OP_entry_value :: "8 word" where
  "DW_OP_entry_value = 0xa3"

definition DW_OP_GNU_entry_value :: "8 word" where
  "DW_OP_GNU_entry_value = 0xf3"

text \<open>The lambda \<open>IsEntryValue\<close> (lines 120 to 131): \<open>any_of\<close> over the operations.\<close>

definition IsEntryValue :: "8 word list \<Rightarrow> bool" where
  "IsEntryValue D =
     list_ex (\<lambda>Op. Op = DW_OP_entry_value \<or> Op = DW_OP_GNU_entry_value) D"

text \<open>
  The loop over \<open>List->Entries\<close> (lines 145 to 150), with \<open>Covered\<close> as the
  accumulator. \<open>Covered\<close>, \<open>Begin\<close> and \<open>End\<close> are \<open>uint64_t\<close>: the subtraction and
  the sum wrap around.
\<close>

fun coverEntries :: "options \<Rightarrow> LocationEntry list \<Rightarrow> uint64_t \<Rightarrow> uint64_t" where
  "coverEntries opts [] Covered = Covered"
| "coverEntries opts (Entry # Entries) Covered =
     (if IgnoreEntryValues opts \<and> IsEntryValue (Loc Entry)
      then coverEntries opts Entries Covered
      else coverEntries opts Entries (Covered + (End Entry - Begin Entry)))"

text \<open>
  \<open>Covered\<close> as it stands before the division (lines 140 to 157): the sum over the list,
  0 when no list is found at the offset, then the clamp to \<open>BytesInScope\<close>.
\<close>

definition clampCovered :: "uint64_t \<Rightarrow> uint64_t \<Rightarrow> uint64_t" where
  "clampCovered Covered BytesInScope =
     (if Covered > BytesInScope then BytesInScope else Covered)"

definition listCovered :: "options \<Rightarrow> LocationEntry list option \<Rightarrow> uint64_t" where
  "listCovered opts List =
     (case List of Some Entries \<Rightarrow> coverEntries opts Entries 0 | None \<Rightarrow> 0)"

text \<open>The value of \<open>Coverage\<close> when line 170 is reached (lines 118 to 168).\<close>

definition Coverage :: "options \<Rightarrow> die_attrs \<Rightarrow> uint64_t \<Rightarrow> double" where
  "Coverage opts a BytesInScope =
     (if DW_AT_const_value a then Finite 100
      else case DW_AT_location a of
          Some (SectionOffset List) \<Rightarrow>
            double_div
              (double_mul (Finite 100)
                 (double_of_uint64 (clampCovered (listCovered opts List) BytesInScope)))
              (double_of_uint64 BytesInScope)
        | Some SingleLocation \<Rightarrow> Finite 100
        | None \<Rightarrow> Finite 0)"

text \<open>
  The end of \<open>collectLocStatsForDie\<close> (lines 172 to 183): the truncated percentage
  is added to \<open>TotalAverage\<close>, its category is incremented, and so is the counter.
\<close>

definition countVariable :: "int \<Rightarrow> stats \<Rightarrow> stats" where
  "countVariable CoverageRounded st =
     st\<lparr>TotalAverage := double_add (TotalAverage st) (double_of_int CoverageRounded),
        LocStatistics := map_incr (LocStatistics st) (PercentageKey CoverageRounded),
        CumulNumOfVars := CumulNumOfVars st + 1\<rparr>"

text \<open>
  \<open>collectLocStatsForDie\<close>. \<open>ParentTag\<close> is \<open>Die.getParent().getTag()\<close>, which the
  traversal knows when it descends. The five early returns leave the statistics alone;
  past them the entity is counted. The debug output of \<open>LLVM_DEBUG\<close> is left out.
\<close>

definition collectLocStatsForDie ::
  "options \<Rightarrow> dw_tag \<Rightarrow> DWARFDie \<Rightarrow> uint64_t \<Rightarrow> uint64_t \<Rightarrow> stats \<Rightarrow> error + stats" where
  "collectLocStatsForDie opts ParentTag D ScopeLowPC BytesInScope st =
     (if getTag D = DW_TAG_variable \<and> OnlyFormalParameters opts then Inr st
      else if getTag D = DW_TAG_formal_parameter \<and> OnlyVariables opts then Inr st
      else if DW_AT_declaration (attrs D) \<or> DW_AT_artificial (attrs D) then Inr st
      else if DW_AT_external (attrs D) \<and> DW_AT_location (attrs D) = None then Inr st
      else if getTag D = DW_TAG_formal_parameter \<and> ParentTag = DW_TAG_subroutine_type
        then Inr st
      else case double_to_int (Coverage opts (attrs D) BytesInScope) of
          Inl e \<Rightarrow> Inl e
        | Inr CoverageRounded \<Rightarrow> Inr (countVariable CoverageRounded st))"

section \<open>The traversal\<close>

text \<open>\<open>getLowPC\<close> (lines 79 to 89); an error of \<open>getAddressRanges\<close> is consumed.\<close>

definition getLowPC :: "die_attrs \<Rightarrow> uint64_t" where
  "getLowPC a =
     (case (case AddressRanges a of Some Ranges \<Rightarrow> Ranges | None \<Rightarrow> []) of
        AddrRange # _ \<Rightarrow> LowPC AddrRange
      | [] \<Rightarrow> (case DW_AT_low_pc a of Some Address \<Rightarrow> Address | None \<Rightarrow> 0))"

text \<open>The loop of lines 227 to 229, with \<open>BytesInThisScope\<close> as the accumulator.\<close>

fun sumRanges :: "DWARFAddressRange list \<Rightarrow> uint64_t \<Rightarrow> uint64_t" where
  "sumRanges [] BytesInThisScope = BytesInThisScope"
| "sumRanges (AddrRange # Ranges) BytesInThisScope =
     sumRanges Ranges (BytesInThisScope + (HighPC AddrRange - LowPC AddrRange))"

text \<open>
  \<open>collectStatsRecursive\<close>, and the loop over the children at its end (lines 242 to
  247) as \<open>traverseChildren\<close>. A \<open>return\<close> inside the first branch leaves the
  statistics as they are and skips the loop over the children.
\<close>

fun collectStatsRecursive ::
  "options \<Rightarrow> dw_tag \<Rightarrow> DWARFDie \<Rightarrow> uint64_t \<Rightarrow> uint64_t \<Rightarrow> stats \<Rightarrow> error + stats"
and traverseChildren ::
  "options \<Rightarrow> dw_tag \<Rightarrow> DWARFDie list \<Rightarrow> uint64_t \<Rightarrow> uint64_t \<Rightarrow> stats \<Rightarrow> error + stats"
where
  "collectStatsRecursive opts ParentTag (Die Tag a cs) ScopeLowPC BytesInScope st =
     (if Tag = DW_TAG_subprogram \<or> Tag = DW_TAG_inlined_subroutine
         \<or> Tag = DW_TAG_lexical_block
      then
        if DW_AT_declaration a then Inr st
        else if DW_AT_inline a then Inr st
        else if IgnoreInlined opts \<and> Tag = DW_TAG_inlined_subroutine then Inr st
        else case AddressRanges a of
            None \<Rightarrow> Inr st
          | Some Ranges \<Rightarrow> traverseChildren opts Tag cs (getLowPC a) (sumRanges Ranges 0) st
      else if Tag = DW_TAG_variable \<or> Tag = DW_TAG_formal_parameter
      then
        case collectLocStatsForDie opts ParentTag (Die Tag a cs) ScopeLowPC BytesInScope st of
          Inl e \<Rightarrow> Inl e
        | Inr st' \<Rightarrow> traverseChildren opts Tag cs ScopeLowPC BytesInScope st'
      else traverseChildren opts Tag cs ScopeLowPC BytesInScope st)"
| "traverseChildren opts ParentTag [] ScopeLowPC BytesInScope st = Inr st"
| "traverseChildren opts ParentTag (Child # Siblings) ScopeLowPC BytesInScope st =
     (case collectStatsRecursive opts ParentTag Child ScopeLowPC BytesInScope st of
        Inl e \<Rightarrow> Inl e
      | Inr st' \<Rightarrow> traverseChildren opts ParentTag Siblings ScopeLowPC BytesInScope st')"

section \<open>The report\<close>

text \<open>
  What is written to a \<open>raw_ostream\<close>, one item for each operand of \<open><<\<close>: a string,
  an unsigned or signed number, or \<open>format_decimal(N, Width)\<close>. How the stream renders
  a number is the business of the stream.
\<close>

datatype out_item = Str string | Unsigned nat | Signed int | FormatDecimal int nat

text \<open>The pieces of one statement are joined; a conversion that is undefined ends it.\<close>

fun joinOutput :: "(error + out_item list) list \<Rightarrow> error + out_item list" where
  "joinOutput [] = Inr []"
| "joinOutput (Inl e # _) = Inl e"
| "joinOutput (Inr items # rest) =
     (case joinOutput rest of Inl e \<Rightarrow> Inl e | Inr items' \<Rightarrow> Inr (items @ items'))"

text \<open>\<open>(int)(LocStatistics[i] / (double)CumulNumOfVars * 100)\<close>.\<close>

definition rowPercentage :: "stats \<Rightarrow> int \<Rightarrow> error + int" where
  "rowPercentage st i =
     double_to_int
       (double_mul
          (double_div (double_of_uint64 (map_at (LocStatistics st) i))
             (double_of_unsigned (CumulNumOfVars st)))
          (Finite 100))"

text \<open>
  One row of the table after its label: the count of category \<open>i\<close> (converted to the
  \<open>int64_t\<close> that \<open>format_decimal\<close> takes) and its share of the total.
\<close>

definition tableRow :: "out_item list \<Rightarrow> stats \<Rightarrow> int \<Rightarrow> error + out_item list" where
  "tableRow label st i =
     (case rowPercentage st i of
        Inl e \<Rightarrow> Inl e
      | Inr pct \<Rightarrow>
          Inr (label @
               [FormatDecimal (sint (map_at (LocStatistics st) i)) 8, Str ''        '',
                FormatDecimal pct 8, Str ''%\<newline>'']))"

text \<open>The label of a row of the loop of lines 273 to 278, \<open>i\<close> from 2 to 10.\<close>

definition bandLabel :: "nat \<Rightarrow> out_item list" where
  "bandLabel i =
     [Str ''    '', Unsigned ((i - 1) * 10 + 1), Str ''..'', Unsigned (i * 10 - 1),
      Str ''    '']"

text \<open>\<open>(int)std::round((TotalAverage/CumulNumOfVars * 100) / 100)\<close>.\<close>

definition averageCoverage :: "stats \<Rightarrow> error + int" where
  "averageCoverage st =
     double_to_int
       (std_round
          (double_div
             (double_mul
                (double_div (TotalAverage st) (double_of_unsigned (CumulNumOfVars st)))
                (Finite 100))
             (Finite 100)))"

definition ruler :: out_item where
  "ruler = Str ''=================================================\<newline>''"

definition outputLocStats :: "stats \<Rightarrow> error + out_item list" where
  "outputLocStats st =
     (if CumulNumOfVars st = 0 then Inr [Str ''No coverage recorded.\<newline>'']
      else joinOutput
        ([Inr [ruler,
               Str ''           Debug Location Statistics\<newline>'',
               ruler,
               Str ''    cov%        samples        percentage\<newline>'',
               Str ''-------------------------------------------------\<newline>''],
          tableRow [Str ''    0'', Str ''         ''] st 0,
          tableRow [Str ''    1..9'', Str ''      ''] st 1]
         @ map (\<lambda>i. tableRow (bandLabel i) st (int i)) [2..<11]
         @ [tableRow [Str ''    100'', Str ''       ''] st 11,
            Inr [ruler,
                 Str ''-the number of debug variables processed: '',
                 Unsigned (unat (CumulNumOfVars st)), Str ''\<newline>'',
                 Str ''-the average coverage per var: ~ ''],
            (case averageCoverage st of
               Inl e \<Rightarrow> Inl e
             | Inr avg \<Rightarrow> Inr [Signed avg, Str ''%\<newline>'']),
            Inr [ruler]]))"

section \<open>One object file\<close>

text \<open>The loop of lines 295 and 296, which stores 0 under the keys 0 to 11.\<close>

function zeroCategories :: "int \<Rightarrow> (int \<rightharpoonup> 64 word) \<Rightarrow> (int \<rightharpoonup> 64 word)" where
  "zeroCategories i m =
     (if i < largest_cov_category then zeroCategories (i + 1) (m(i \<mapsto> 0)) else m)"
  by pat_completeness auto
termination
  by (relation "measure (\<lambda>(i, m). nat (largest_cov_category - i))") auto

declare zeroCategories.simps [simp del]

definition initialStats :: stats where
  "initialStats =
     \<lparr>LocStatistics = zeroCategories 0 Map.empty, CumulNumOfVars = 0,
      TotalAverage = Finite 0\<rparr>"

text \<open>
  The loop over \<open>compile_units()\<close> (lines 301 to 304). A unit whose
  \<open>getNonSkeletonUnitDIE\<close> is not valid is \<open>None\<close> and is passed over. The parent of a
  unit DIE is the invalid DIE, whose tag reads as \<open>DW_TAG_null\<close>.
\<close>

fun collectUnits :: "options \<Rightarrow> DWARFDie option list \<Rightarrow> stats \<Rightarrow> error + stats" where
  "collectUnits opts [] st = Inr st"
| "collectUnits opts (None # CUs) st = collectUnits opts CUs st"
| "collectUnits opts (Some CUDie # CUs) st =
     (case collectStatsRecursive opts DW_TAG_null CUDie 0 0 st of
        Inl e \<Rightarrow> Inl e
      | Inr st' \<Rightarrow> collectUnits opts CUs st')"

definition collectLocstats :: "options \<Rightarrow> DWARFDie option list \<Rightarrow> error + out_item list" where
  "collectLocstats opts CUs =
     (case collectUnits opts CUs initialStats of
        Inl e \<Rightarrow> Inl e
      | Inr st \<Rightarrow> outputLocStats st)"

section \<open>The driver\<close>

text \<open>
  The command line after \<open>ParseCommandLineOptions\<close>, and the services \<open>main\<close> calls: the
  opening of the output file, \<open>MemoryBuffer::getFileOrSTDIN\<close> and
  \<open>object::createBinary\<close>. A service that fails answers with the message of its error
  code. A binary is an object file with the unit DIEs of its compile units, or
  something else (an archive, say), for which nothing is done.
\<close>

record cmdline = options +
  Help :: bool
  InputFilename :: string
  OutputFilename :: string

datatype binary = ObjectFile "DWARFDie option list" | OtherBinary

record 'buffer services =
  openOutputFile :: "string \<Rightarrow> string option"
  getFileOrSTDIN :: "string \<Rightarrow> string + 'buffer"
  createBinary :: "'buffer \<Rightarrow> string + binary"

text \<open>
  What a run leaves behind: the exit status, the messages sent to the error stream,
  whether the help text was printed, and the report written by \<open>collectLocstats\<close>
  (\<open>None\<close> when it was never called).
\<close>

record outcome =
  exit_status :: int
  diagnostics :: "string list"
  help_printed :: bool
  report :: "out_item list option"

definition EXIT_SUCCESS :: int where
  "EXIT_SUCCESS = 0"

text \<open>\<open>error(Prefix, EC)\<close> with an error code that is set: a message, then \<open>exit(1)\<close>.\<close>

definition error_exit :: "string \<Rightarrow> string \<Rightarrow> outcome" where
  "error_exit Prefix message =
     \<lparr>exit_status = 1, diagnostics = [Prefix @ '': '' @ message @ ''\<newline>''],
      help_printed = False, report = None\<rparr>"

definition handleBuffer ::
  "'buffer services \<Rightarrow> options \<Rightarrow> string \<Rightarrow> 'buffer \<Rightarrow> error + outcome" where
  "handleBuffer env opts Filename Buffer =
     (case createBinary env Buffer of
        Inl message \<Rightarrow> Inr (error_exit Filename message)
      | Inr OtherBinary \<Rightarrow>
          Inr \<lparr>exit_status = EXIT_SUCCESS, diagnostics = [], help_printed = False,
               report = None\<rparr>
      | Inr (ObjectFile CUs) \<Rightarrow>
          (case collectLocstats opts CUs of
             Inl e \<Rightarrow> Inl e
           | Inr items \<Rightarrow>
               Inr \<lparr>exit_status = EXIT_SUCCESS, diagnostics = [], help_printed = False,
                    report = Some items\<rparr>))"

definition handleFile :: "'buffer services \<Rightarrow> options \<Rightarrow> string \<Rightarrow> error + outcome" where
  "handleFile env opts Filename =
     (case getFileOrSTDIN env Filename of
        Inl message \<Rightarrow> Inr (error_exit Filename message)
      | Inr Buffer \<Rightarrow> handleBuffer env opts Filename Buffer)"

definition main :: "'buffer services \<Rightarrow> cmdline \<Rightarrow> error + outcome" where
  "main env cl =
     (if Help cl
      then Inr \<lparr>exit_status = 0, diagnostics = [], help_printed = True, report = None\<rparr>
      else if InputFilename cl = []
      then Inr \<lparr>exit_status = 1, diagnostics = [''no input file\<newline>''],
                help_printed = False, report = None\<rparr>
      else if OnlyFormalParameters cl \<and> OnlyVariables cl
      then Inr \<lparr>exit_status = 0,
                diagnostics =
                  [''incompatible arguments: specifying both '' @
                   ''-only-formal-parameters and -only-variables is '' @
                   ''not allowed.''],
                help_printed = False, report = None\<rparr>
      else case openOutputFile env (OutputFilename cl) of
          Some message \<Rightarrow>
            Inr (error_exit (''Unable to open output file'' @ OutputFilename cl) message)
        | None \<Rightarrow> handleFile env (options.truncate cl) (InputFilename cl))"

section \<open>Example inputs\<close>

text \<open>An entity with no attribute at all, and the command line with no toggle set.\<close>

definition no_attributes :: die_attrs where
  "no_attributes =
     \<lparr>DW_AT_declaration = False, DW_AT_artificial = False, DW_AT_external = False,
      DW_AT_inline = False, DW_AT_const_value = False, DW_AT_location = None,
      DW_AT_low_pc = None, AddressRanges = None\<rparr>"

definition no_toggles :: options where
  "no_toggles =
     \<lparr>OnlyFormalParameters = False, OnlyVariables = False, IgnoreInlined = False,
      IgnoreEntryValues = False\<rparr>"

text \<open>
  A variable whose location list covers the offsets from 0 to 50 and from 60 to 90,
  80 bytes in all.
\<close>

definition listed_variable :: DWARFDie where
  "listed_variable =
     Die DW_TAG_variable
       (no_attributes\<lparr>DW_AT_location :=
          Some (SectionOffset (Some [\<lparr>Begin = 0, End = 50, Loc = []\<rparr>,
                                     \<lparr>Begin = 60, End = 90, Loc = []\<rparr>]))\<rparr>)
       []"

text \<open>A function with no address range at all around that variable, in a unit.\<close>

definition rangeless_function :: DWARFDie where
  "rangeless_function =
     Die DW_TAG_subprogram (no_attributes\<lparr>AddressRanges := Some []\<rparr>) [listed_variable]"

definition rangeless_unit :: DWARFDie where
  "rangeless_unit = Die DW_TAG_compile_unit no_attributes [rangeless_function]"

text \<open>The same variable inside a function of 100 bytes, in a unit.\<close>

definition sized_function :: DWARFDie where
  "sized_function =
     Die DW_TAG_subprogram
       (no_attributes\<lparr>AddressRanges := Some [\<lparr>LowPC = 4096, HighPC = 4196\<rparr>]\<rparr>)
       [listed_variable]"

definition sized_unit :: DWARFDie where
  "sized_unit = Die DW_TAG_compile_unit no_attributes [sized_function]"

text \<open>A forward declaration of a function, with the variable below it.\<close>

definition declared_function :: DWARFDie where
  "declared_function =
     Die DW_TAG_subprogram (no_attributes\<lparr>DW_AT_declaration := True\<rparr>) [listed_variable]"

text \<open>A variable with a constant value and, besides, a location list.\<close>

definition constant_variable :: DWARFDie where
  "constant_variable =
     Die DW_TAG_variable
       (no_attributes\<lparr>DW_AT_const_value := True,
          DW_AT_location := Some (SectionOffset (Some [\<lparr>Begin = 0, End = 8, Loc = []\<rparr>]))\<rparr>)
       []"



text \<open>A formal parameter with a single location, a unit of a function that holds it.\<close>

definition plain_parameter :: DWARFDie where
  "plain_parameter =
     Die DW_TAG_formal_parameter (no_attributes\<lparr>DW_AT_location := Some SingleLocation\<rparr>) []"

definition parameter_unit :: DWARFDie where
  "parameter_unit =
     Die DW_TAG_compile_unit no_attributes
       [Die DW_TAG_subprogram
          (no_attributes\<lparr>AddressRanges := Some [\<lparr>LowPC = 0, HighPC = 16\<rparr>]\<rparr>)
          [plain_parameter]]"

definition only_variables :: options where
  "only_variables = no_toggles\<lparr>OnlyVariables := True\<rparr>"

text \<open>
  A list of two sub-ranges of \<open>2 ^ 63\<close> and \<open>2 ^ 63 + 50\<close> bytes, whose lengths add
  up to \<open>2 ^ 64 + 50\<close>, and a variable that has it.
\<close>

definition wrapping_entries :: "LocationEntry list" where
  "wrapping_entries =
     [\<lparr>Begin = 0, End = 0x8000000000000000, Loc = []\<rparr>,
      \<lparr>Begin = 0, End = 0x8000000000000032, Loc = []\<rparr>]"

definition wrapping_variable :: DWARFDie where
  "wrapping_variable =
     Die DW_TAG_variable
       (no_attributes\<lparr>DW_AT_location := Some (SectionOffset (Some wrapping_entries))\<rparr>) []"

text \<open>
  The command line \<open>-ignore-entry-values\<close>, and a variable whose list has three
  sub-ranges of 50, 30 and 30 bytes, the second with the operations
  \<open>DW_OP_entry_value\<close> and \<open>DW_OP_stack_value\<close>.
\<close>

definition ignore_entry_values :: options where
  "ignore_entry_values = no_toggles\<lparr>IgnoreEntryValues := True\<rparr>"

definition entry_value_entries :: "LocationEntry list" where
  "entry_value_entries =
     [\<lparr>Begin = 0, End = 50, Loc = [0x50]\<rparr>,
      \<lparr>Begin = 60, End = 90, Loc = [0xa3, 0x9f]\<rparr>,
      \<lparr>Begin = 100, End = 130, Loc = [0x91]\<rparr>]"

definition entry_value_variable :: DWARFDie where
  "entry_value_variable =
     Die DW_TAG_variable
       (no_attributes\<lparr>DW_AT_location := Some (SectionOffset (Some entry_value_entries))\<rparr>) []"

text \<open>
  A variable whose list covers 360320036696963 bytes, to be measured against a scope
  of 360320036696953 bytes.
\<close>

definition vast_variable :: DWARFDie where
  "vast_variable =
     Die DW_TAG_variable
       (no_attributes\<lparr>DW_AT_location :=
          Some (SectionOffset (Some [\<lparr>Begin = 0, End = 360320036696963, Loc = []\<rparr>]))\<rparr>)
       []"


text \<open>The statistics of 100 variables, 29 of them in category 0 and 71 in category 11.\<close>

definition hundred_counted :: stats where
  "hundred_counted =
     \<lparr>LocStatistics = (zeroCategories 0 Map.empty)(0 \<mapsto> 29, 11 \<mapsto> 71),
      CumulNumOfVars = 100, TotalAverage = Finite 7100\<rparr>"

text \<open>
  The command line \<open>-only-formal-parameters -only-variables a.o\<close>, and services under
  which \<open>a.o\<close> is an object file that can be read and the output can be opened.
\<close>

definition both_toggles :: cmdline where
  "both_toggles =
     \<lparr>OnlyFormalParameters = True, OnlyVariables = True, IgnoreInlined = False,
      IgnoreEntryValues = False, Help = False, InputFilename = ''a.o'',
      OutputFilename = ''-''\<rparr>"

definition working_services :: "unit services" where
  "working_services =
     \<lparr>openOutputFile = (\<lambda>name. None), getFileOrSTDIN = (\<lambda>name. Inr ()),
      createBinary = (\<lambda>buffer. Inr (ObjectFile [Some sized_unit]))\<rparr>"

section \<open>The filters and the sum of a list, in the words of the specification\<close>

text \<open>
  The five filters that come before the evaluation: the wrong tag for the active mode,
  the declaration or artificial flag, external without a location, and a formal
  parameter whose parent is a subroutine type.
\<close>

definition caught_by_filter :: "options \<Rightarrow> dw_tag \<Rightarrow> DWARFDie \<Rightarrow> bool" where
  "caught_by_filter opts ParentTag D \<longleftrightarrow>
     (getTag D = DW_TAG_variable \<and> OnlyFormalParameters opts) \<or>
     (getTag D = DW_TAG_formal_parameter \<and> OnlyVariables opts) \<or>
     DW_AT_declaration (attrs D) \<or> DW_AT_artificial (attrs D) \<or>
     (DW_AT_external (attrs D) \<and> DW_AT_location (attrs D) = None) \<or>
     (getTag D = DW_TAG_formal_parameter \<and> ParentTag = DW_TAG_subroutine_type)"

text \<open>
  The sum of \<open>end - begin\<close> over the sub-ranges of a list, without those left out
  for their entry value, as a natural number.
\<close>

definition summed_lengths :: "options \<Rightarrow> LocationEntry list \<Rightarrow> nat" where
  "summed_lengths opts Entries =
     sum_list (map (\<lambda>Entry. unat (End Entry - Begin Entry))
       (filter (\<lambda>Entry. \<not> (IgnoreEntryValues opts \<and> IsEntryValue (Loc Entry))) Entries))"

section \<open>The invariant of the histogram\<close>

text \<open>The twelve categories, and the sum of their counts read as natural numbers.\<close>

definition categories :: "int list" where
  "categories = [0, 1, 2, 3, 4, 5, 6, 7, 8, 9, 10, 11]"

definition category_sum :: "(int \<rightharpoonup> 64 word) \<Rightarrow> nat" where
  "category_sum m = sum_list (map (\<lambda>k. unat (map_at m k)) categories)"

text \<open>
  The keys of the map are the twelve categories and no other, and the counter, which
  has 32 bits, agrees with the sum of the twelve counts up to a multiple of \<open>2 ^ 32\<close>.
\<close>

definition histogram_invariant :: "stats \<Rightarrow> bool" where
  "histogram_invariant st \<longleftrightarrow>
     dom (LocStatistics st) = set categories \<and>
     category_sum (LocStatistics st) mod 2 ^ 32 = unat (CumulNumOfVars st)"

section \<open>The truncated percentages of a run\<close>




section \<open>Auxiliary facts\<close>

subsection \<open>Rounding to binary64\<close>

lemma pow2_nat: "0 \<le> k \<Longrightarrow> (2::rat) powi k = 2 ^ nat k"
  by (simp add: power_int_def)

lemma pow2_neg: "0 \<le> k \<Longrightarrow> (2::rat) powi (- k) = 1 / 2 ^ nat k"
  by (simp add: power_int_def field_simps)

lemma ilog2_bounds:
  assumes "0 < x"
  shows "2 powi (ilog2 x) \<le> x" and "x < 2 powi (ilog2 x + 1)"
proof -
  have "2 powi (ilog2 x) \<le> x \<and> x < 2 powi (ilog2 x + 1)"
  proof (cases "1 \<le> x")
    case True
    define n where "n = \<lfloor>x\<rfloor>"
    have n: "0 < n" using True by (simp add: n_def)
    from bitlen_bounds [OF n]
    have lo: "2 ^ nat (bitlen n - 1) \<le> n" and hi: "n < 2 ^ nat (bitlen n)" by simp_all
    have b: "1 \<le> bitlen n" using n by (simp add: bitlen_alt_def)
    have i: "ilog2 x = bitlen n - 1" using True by (simp add: ilog2_def n_def)
    have "(2 ^ nat (bitlen n - 1) :: rat) \<le> of_int n"
      using lo by simp
    also have "of_int n \<le> x" by (simp add: n_def)
    finally have l: "2 powi (ilog2 x) \<le> x"
      using b by (simp add: i pow2_nat)
    have "x < of_int (n + 1)" using floor_correct [of x] by (simp add: n_def)
    also have "(of_int (n + 1) :: rat) \<le> 2 ^ nat (bitlen n)"
    proof -
      have "n + 1 \<le> 2 ^ nat (bitlen n)" using hi by simp
      then have "(of_int (n + 1) :: rat) \<le> of_int (2 ^ nat (bitlen n))"
        by (simp only: of_int_le_iff)
      then show ?thesis by simp
    qed
    finally have "x < 2 powi (ilog2 x + 1)"
      using b by (simp add: i pow2_nat)
    with l show ?thesis ..
  next
    case False
    define y where "y = 1 / x"
    have y: "1 < y" using False assms by (simp add: y_def)
    define n where "n = \<lceil>y\<rceil> - 1"
    have "2 \<le> \<lceil>y\<rceil>" using y by (simp add: le_ceiling_iff)
    then have n: "0 < n" by (simp add: n_def)
    have "of_int (\<lceil>y\<rceil> - 1) < y"
      using ceiling_correct [of y] by simp
    then have ny: "of_int n < y" by (simp only: n_def)
    have yn: "y \<le> of_int (n + 1)" using ceiling_correct [of y] by (simp add: n_def)
    from bitlen_bounds [OF n]
    have lo: "2 ^ nat (bitlen n - 1) \<le> n" and hi: "n < 2 ^ nat (bitlen n)" by simp_all
    have b: "1 \<le> bitlen n" using n by (simp add: bitlen_alt_def)
    have i: "ilog2 x = - bitlen n" using False by (simp add: ilog2_def n_def y_def)
    have "(of_int (n + 1) :: rat) \<le> 2 ^ nat (bitlen n)"
    proof -
      have "n + 1 \<le> 2 ^ nat (bitlen n)" using hi by simp
      then have "(of_int (n + 1) :: rat) \<le> of_int (2 ^ nat (bitlen n))"
        by (simp only: of_int_le_iff)
      then show ?thesis by simp
    qed
    with yn have "y \<le> 2 ^ nat (bitlen n)" by (rule order_trans)
    then have "1 / 2 ^ nat (bitlen n) \<le> x"
      using assms by (simp add: y_def field_simps)
    then have l: "2 powi (ilog2 x) \<le> x"
      using b by (simp add: i pow2_neg)
    have "(2 ^ nat (bitlen n - 1) :: rat) \<le> of_int n"
      using lo by simp
    also note ny
    finally have "2 ^ nat (bitlen n - 1) < y" .
    then have "x < 1 / 2 ^ nat (bitlen n - 1)"
      using assms by (simp add: y_def field_simps)
    moreover have "ilog2 x + 1 = - (bitlen n - 1)" by (simp add: i)
    moreover have "0 \<le> bitlen n - 1" using b by simp
    ultimately have "x < 2 powi (ilog2 x + 1)"
      by (simp only: pow2_neg)
    with l show ?thesis ..
  qed
  then show "2 powi (ilog2 x) \<le> x" and "x < 2 powi (ilog2 x + 1)" by simp_all
qed

lemma round_to_even_error: "\<bar>of_int (round_to_even r) - r\<bar> \<le> 1 / 2"
proof -
  have "of_int \<lfloor>r\<rfloor> \<le> r" and "r < of_int \<lfloor>r\<rfloor> + 1"
    using floor_correct [of r] by simp_all
  then show ?thesis
    by (auto simp add: round_to_even_def abs_le_iff)
qed

lemma round_to_even_of_int: "round_to_even (of_int n) = n"
  by (simp add: round_to_even_def)

lemma round_to_even_nonneg: "0 \<le> r \<Longrightarrow> 0 \<le> round_to_even r"
  by (simp add: round_to_even_def)

lemma quantum_pos: "0 < quantum x"
  by (simp add: quantum_def)

lemma binary64_error:
  "\<bar>binary64 x - x\<bar> \<le> quantum x / 2"
proof (cases "x = 0")
  case True
  then show ?thesis using quantum_pos [of 0] by (simp add: binary64_def)
next
  case False
  let ?q = "quantum x"
  have q: "0 < ?q" by (rule quantum_pos)
  have "binary64 x - x = (of_int (round_to_even (x / ?q)) - x / ?q) * ?q"
    using False q by (simp add: binary64_def field_simps)
  then have "\<bar>binary64 x - x\<bar> = \<bar>of_int (round_to_even (x / ?q)) - x / ?q\<bar> * ?q"
    using q by (simp add: abs_mult)
  also have "\<dots> \<le> 1 / 2 * ?q"
    using round_to_even_error [of "x / ?q"] q by (intro mult_right_mono) simp_all
  finally show ?thesis by simp
qed

lemma binary64_nonneg: "0 \<le> x \<Longrightarrow> 0 \<le> binary64 x"
  using quantum_pos [of x] by (simp add: binary64_def round_to_even_nonneg)

lemma pow2_less_imp_less:
  assumes "(2 :: rat) powi m < 2 powi n"
  shows "m < n"
proof (rule ccontr)
  assume "\<not> m < n"
  then have "n \<le> m" by simp
  then have "(2 :: rat) powi n \<le> 2 powi m"
    by (rule power_int_increasing) simp
  with assms show False by simp
qed

lemma quantum_normal:
  assumes "2 powi (- 1022) \<le> \<bar>x\<bar>"
  shows "quantum x \<le> \<bar>x\<bar> / 2 ^ 52"
proof -
  have pos: "0 < \<bar>x\<bar>"
    using assms zero_less_power_int [of "2 :: rat" "- 1022"] by linarith
  have "2 powi (- 1022) < (2 :: rat) powi (ilog2 \<bar>x\<bar> + 1)"
    using assms ilog2_bounds(2) [OF pos] by (rule le_less_trans)
  then have "- 1022 < ilog2 \<bar>x\<bar> + 1"
    by (rule pow2_less_imp_less)
  then have "max (ilog2 \<bar>x\<bar> - 52) (- 1074) = ilog2 \<bar>x\<bar> - 52"
    by simp
  then have "quantum x = 2 powi (ilog2 \<bar>x\<bar> - 52)"
    by (simp only: quantum_def)
  also have "\<dots> = 2 powi (ilog2 \<bar>x\<bar>) / 2 ^ 52"
    by (simp add: power_int_diff)
  also have "\<dots> \<le> \<bar>x\<bar> / 2 ^ 52"
    using ilog2_bounds(1) [OF pos] by (simp add: divide_right_mono)
  finally show ?thesis .
qed

lemma binary64_relative_error:
  assumes "2 powi (- 1022) \<le> \<bar>x\<bar>"
  shows "\<bar>binary64 x - x\<bar> \<le> \<bar>x\<bar> / 2 ^ 53"
proof -
  have "\<bar>binary64 x - x\<bar> \<le> quantum x / 2" by (rule binary64_error)
  also have "\<dots> \<le> (\<bar>x\<bar> / 2 ^ 52) / 2"
    using quantum_normal [OF assms] by simp
  finally show ?thesis by simp
qed

lemma binary64_exact:
  assumes "\<bar>m\<bar> < 2 ^ 53" and "- 1074 \<le> k"
  shows "binary64 (of_int m * 2 powi k) = of_int m * 2 powi k"
proof (cases "m = 0")
  case True
  then show ?thesis by (simp add: binary64_def)
next
  case False
  let ?x = "of_int m * (2 :: rat) powi k"
  define e where "e = max (ilog2 \<bar>?x\<bar> - 52) (- 1074)"
  have q: "quantum ?x = 2 powi e"
    by (simp only: quantum_def e_def)
  have x: "\<bar>?x\<bar> = of_int \<bar>m\<bar> * 2 powi k"
    by (simp add: abs_mult)
  have pos: "0 < \<bar>?x\<bar>"
    using False by simp
  have "2 powi (ilog2 \<bar>?x\<bar>) \<le> \<bar>?x\<bar>"
    using pos by (rule ilog2_bounds(1))
  also have "\<bar>?x\<bar> < 2 ^ 53 * 2 powi k"
  proof -
    have "(of_int \<bar>m\<bar> :: rat) < of_int (2 ^ 53)"
      using assms(1) by (simp only: of_int_less_iff)
    then have "(of_int \<bar>m\<bar> :: rat) < 2 ^ 53" by simp
    then have "of_int \<bar>m\<bar> * (2 :: rat) powi k < 2 ^ 53 * 2 powi k"
      by (rule mult_strict_right_mono) simp
    then show ?thesis by (simp only: x)
  qed
  also have "(2 ^ 53 :: rat) * 2 powi k = 2 powi (k + 53)"
    by (simp add: power_int_add)
  finally have "ilog2 \<bar>?x\<bar> < k + 53"
    by (rule pow2_less_imp_less)
  then have ek: "e \<le> k"
    using assms(2) by (simp add: e_def)
  have "?x / 2 powi e = of_int m * 2 powi (k - e)"
    by (simp add: power_int_diff)
  also have "\<dots> = of_int (m * 2 ^ nat (k - e))"
    using ek by (simp add: pow2_nat)
  finally have "round_to_even (?x / 2 powi e) = m * 2 ^ nat (k - e)"
    by (simp only: round_to_even_of_int)
  then have "of_int (round_to_even (?x / 2 powi e)) * (2 :: rat) powi e
      = of_int m * (2 ^ nat (k - e) * 2 powi e)"
    by simp
  also have "(2 :: rat) ^ nat (k - e) * 2 powi e = 2 powi k"
    using ek by (simp add: pow2_nat [symmetric] power_int_add [symmetric])
  finally show ?thesis
    using False by (simp add: binary64_def q)
qed

lemma to_double_exact:
  assumes "\<bar>m\<bar> < 2 ^ 53" and "- 1074 \<le> k" and "k \<le> 970"
  shows "to_double (of_int m * 2 powi k) = Finite (of_int m * 2 powi k)"
proof -
  have "(of_int \<bar>m\<bar> :: rat) < of_int (2 ^ 53)"
    using assms(1) by (simp only: of_int_less_iff)
  then have m: "(of_int \<bar>m\<bar> :: rat) < 2 ^ 53" by simp
  have "(2 :: rat) powi k \<le> 2 powi 970"
    using assms(3) by (rule power_int_increasing) simp
  then have k: "(2 :: rat) powi k \<le> 2 ^ 970" by simp
  have "\<bar>of_int m * (2 :: rat) powi k\<bar> = of_int \<bar>m\<bar> * 2 powi k"
    by (simp add: abs_mult)
  also have "\<dots> < 2 ^ 53 * 2 ^ 970"
    using m k by (intro mult_less_le_imp_less) simp_all
  finally have "\<bar>of_int m * (2 :: rat) powi k\<bar> < 2 ^ 1024" by simp
  then show ?thesis
    by (simp add: to_double_def binary64_exact [OF assms(1,2)] del: power_int_numeral)
qed

lemma to_double_of_int:
  assumes "\<bar>m\<bar> < 2 ^ 53"
  shows "to_double (of_int m) = Finite (of_int m)"
  using to_double_exact [OF assms, of 0] by simp

lemma to_double_of_nat:
  assumes "n < 2 ^ 53"
  shows "to_double (of_nat n) = Finite (of_nat n)"
proof -
  have "\<bar>int n\<bar> < 2 ^ 53" using assms by simp
  from to_double_of_int [OF this] show ?thesis by simp
qed


lemma to_double_zero: "to_double 0 = Finite 0"
  by (simp add: to_double_def binary64_def)

lemma to_double_normal:
  assumes "1 / 2 ^ 1022 \<le> x" and "x \<le> 2 ^ 1023"
  shows "\<exists>y. to_double x = Finite y \<and> x - x / 2 ^ 53 \<le> y \<and> y \<le> x + x / 2 ^ 53"
proof -
  have pos: "0 < x"
    using assms(1) by (rule less_le_trans [rotated]) simp
  have "(2 :: rat) powi (- 1022) = 1 / 2 ^ 1022"
    by (simp add: power_int_minus field_simps)
  then have "2 powi (- 1022) \<le> \<bar>x\<bar>"
    using assms(1) pos by simp
  then have "\<bar>binary64 x - x\<bar> \<le> \<bar>x\<bar> / 2 ^ 53"
    by (rule binary64_relative_error)
  then have e: "\<bar>binary64 x - x\<bar> \<le> x / 2 ^ 53"
    using pos by simp
  then have "binary64 x - x \<le> x / 2 ^ 53" and "- (binary64 x - x) \<le> x / 2 ^ 53"
    by (simp_all only: abs_le_iff)
  then have lo: "x - x / 2 ^ 53 \<le> binary64 x" and hi: "binary64 x \<le> x + x / 2 ^ 53"
    by linarith+
  have "0 \<le> binary64 x"
    using pos by (simp add: binary64_nonneg)
  moreover have "binary64 x < 2 ^ 1024"
  proof -
    have "x / 2 ^ 53 \<le> x" using pos by (simp add: divide_le_eq)
    with hi have "binary64 x \<le> x + x" by simp
    also have "\<dots> \<le> 2 ^ 1023 + 2 ^ 1023" using assms(2) by simp
    finally have "binary64 x \<le> 2 ^ 1024" by simp
    moreover have "binary64 x \<noteq> 2 ^ 1024"
    proof
      assume eq: "binary64 x = 2 ^ 1024"
      have "x / 2 ^ 53 \<le> 2 ^ 1023 / 2 ^ 53" using assms(2) by (simp add: divide_right_mono)
      then have "x + x / 2 ^ 53 \<le> 2 ^ 1023 + 2 ^ 1023 / 2 ^ 53" using assms(2) by simp
      also have "\<dots> < (2 ^ 1024 :: rat)" by simp
      finally show False using hi eq by simp
    qed
    ultimately show ?thesis by simp
  qed
  ultimately have "to_double x = Finite (binary64 x)"
    by (simp add: to_double_def)
  with lo hi show ?thesis by simp
qed

lemma to_double_crude:
  assumes "1 / 2 ^ 1022 \<le> x" and "x \<le> 2 ^ 1023"
  shows "\<exists>y. to_double x = Finite y \<and> x * (999 / 1000) \<le> y \<and> y \<le> x * (1001 / 1000)"
proof -
  have pos: "0 < x"
    using assms(1) by (rule less_le_trans [rotated]) simp
  from to_double_normal [OF assms] obtain y where
    y: "to_double x = Finite y" "x - x / 2 ^ 53 \<le> y" "y \<le> x + x / 2 ^ 53"
    by blast
  have "x / 2 ^ 53 \<le> x / 1000"
    using pos by (simp add: field_simps)
  with y(2,3) have "x * (999 / 1000) \<le> y" and "y \<le> x * (1001 / 1000)"
    by simp_all
  with y(1) show ?thesis by blast
qed

lemma to_double_nat_crude:
  fixes n :: nat
  assumes "0 < n" and "n < 2 ^ 64"
  shows "\<exists>y. to_double (of_nat n) = Finite y \<and> of_nat n * (999 / 1000) \<le> y
    \<and> y \<le> of_nat n * (1001 / 1000)"
proof (rule to_double_crude)
  have "(1 :: rat) \<le> of_nat n" using assms(1) by simp
  then show "1 / 2 ^ 1022 \<le> (of_nat n :: rat)"
    by (rule order_trans [rotated]) simp
  have "(of_nat n :: rat) < of_nat (2 ^ 64)"
    using assms(2) by (simp only: of_nat_less_iff)
  then have "(of_nat n :: rat) \<le> 2 ^ 64" by simp
  then show "(of_nat n :: rat) \<le> 2 ^ 1023"
    by (rule order_trans) simp
qed

lemma percentage_range:
  fixes c b :: nat
  assumes "c \<le> b" and "0 < b" and "b < 2 ^ 64"
  shows "\<exists>r. double_div (double_mul (Finite 100) (to_double (of_nat c))) (to_double (of_nat b))
      = Finite r \<and> 0 \<le> r \<and> r < 101 \<and> (c = b \<longrightarrow> 99 \<le> r)"
proof -
  from to_double_nat_crude [OF assms(2,3)] obtain yb where
    yb: "to_double (of_nat b) = Finite yb" "of_nat b * (999 / 1000) \<le> yb"
      "yb \<le> of_nat b * (1001 / 1000)"
    by blast
  have b1: "(1 :: rat) \<le> of_nat b" using assms(2) by simp
  have b64: "(of_nat b :: rat) \<le> 2 ^ 64"
  proof -
    have "(of_nat b :: rat) < of_nat (2 ^ 64)"
      using assms(3) by (simp only: of_nat_less_iff)
    then show ?thesis by simp
  qed
  have ybpos: "0 < yb" using yb(2) b1 by linarith
  show ?thesis
  proof (cases "c = 0")
    case True
    then show ?thesis
      using yb(1) ybpos assms(2) by (simp add: to_double_zero)
  next
    case False
    then have c0: "0 < c" by simp
    have c64: "c < 2 ^ 64" using assms(1,3) by simp
    from to_double_nat_crude [OF c0 c64] obtain y1 where
      y1: "to_double (of_nat c) = Finite y1" "of_nat c * (999 / 1000) \<le> y1"
        "y1 \<le> of_nat c * (1001 / 1000)"
      by blast
    have c1: "(1 :: rat) \<le> of_nat c" using c0 by simp
    have cb: "(of_nat c :: rat) \<le> of_nat b" using assms(1) by simp
    have "(1 :: rat) \<le> 100 * y1"
      using y1(2) c1 by linarith
    then have "1 / 2 ^ 1022 \<le> 100 * y1"
      by (rule order_trans [rotated]) simp
    moreover have "100 * y1 \<le> 2 ^ 72"
      using y1(3) cb b64 by (simp; linarith)
    then have "100 * y1 \<le> 2 ^ 1023"
      by (rule order_trans) simp
    ultimately obtain y2 where
      y2: "to_double (100 * y1) = Finite y2" "100 * y1 * (999 / 1000) \<le> y2"
        "y2 \<le> 100 * y1 * (1001 / 1000)"
      using to_double_crude by blast
    have y2lo: "99 \<le> y2" using y2(2) y1(2) c1 by linarith
    have y2hi: "y2 \<le> yb * (10031 / 100)" using y2(3) y1(3) cb yb(2) by linarith
    define x3 where "x3 = y2 / yb"
    have x3hi: "x3 \<le> 10031 / 100"
      using y2hi ybpos by (simp add: x3_def field_simps)
    have x3lo: "1 / 2 ^ 1022 \<le> x3"
    proof -
      have "yb \<le> 2 ^ 65" using yb(3) b64 by (simp; linarith)
      then have "yb \<le> 2 ^ 65 * y2" using y2lo by (simp; linarith)
      then have "1 / 2 ^ 65 \<le> x3"
        using ybpos by (simp add: x3_def field_simps)
      then show ?thesis
        by (rule order_trans [rotated]) simp
    qed
    have "x3 \<le> 2 ^ 1023"
      using x3hi by (rule order_trans) simp
    with x3lo obtain y3 where
      y3: "to_double x3 = Finite y3" "x3 * (999 / 1000) \<le> y3"
        "y3 \<le> x3 * (1001 / 1000)"
      using to_double_crude by blast
    have "0 \<le> x3" using y2lo ybpos by (simp add: x3_def)
    then have "0 \<le> y3" using y3(2) by linarith
    moreover have "y3 < 101" using y3(3) x3hi by linarith
    moreover have "99 \<le> y3" if "c = b"
    proof -
      have "y1 = yb" using that y1(1) yb(1) by simp
      then have "yb * (999 / 10) \<le> y2" using y2(2) by simp
      then have "999 / 10 \<le> x3"
        using ybpos by (simp add: x3_def field_simps)
      then show ?thesis using y3(2) by linarith
    qed
    ultimately show ?thesis
      using y1(1) yb(1) y2(1) y3(1) ybpos by (simp add: x3_def)
  qed
qed

lemma to_double_numeral:
  "(numeral k :: nat) < 2 ^ 53 \<Longrightarrow> to_double (numeral k) = Finite (numeral k)"
  using to_double_of_nat [of "numeral k"] by simp


lemma to_double_one: "to_double 1 = Finite 1"
  using to_double_of_nat [of 1] by simp



subsection \<open>One entity\<close>

lemma collectLocStatsForDie_caught:
  "caught_by_filter opts ParentTag D \<Longrightarrow>
   collectLocStatsForDie opts ParentTag D ScopeLowPC BytesInScope st = Inr st"
  by (auto simp add: caught_by_filter_def collectLocStatsForDie_def)

lemma collectLocStatsForDie_passed:
  "\<not> caught_by_filter opts ParentTag D \<Longrightarrow>
   collectLocStatsForDie opts ParentTag D ScopeLowPC BytesInScope st =
     (case double_to_int (Coverage opts (attrs D) BytesInScope) of
        Inl e \<Rightarrow> Inl e
      | Inr CoverageRounded \<Rightarrow> Inr (countVariable CoverageRounded st))"
  by (auto simp add: caught_by_filter_def collectLocStatsForDie_def)

lemma double_to_int_100: "double_to_int (Finite 100) = Inr 100"
  by (simp add: truncation_def)

lemma clampCovered_zero: "clampCovered Covered 0 = 0"
  by (simp add: clampCovered_def word_gt_0)

lemma clampCovered_le: "clampCovered Covered BytesInScope \<le> BytesInScope"
  by (simp add: clampCovered_def not_less)

lemma Coverage_list:
  assumes "\<not> DW_AT_const_value a" and "DW_AT_location a = Some (SectionOffset List)"
  shows "Coverage opts a BytesInScope =
     double_div
       (double_mul (Finite 100)
          (to_double (of_nat (unat (clampCovered (listCovered opts List) BytesInScope)))))
       (to_double (of_nat (unat BytesInScope)))"
  using assms by (simp add: Coverage_def double_of_uint64_def)

lemma Coverage_zero_scope:
  "\<not> DW_AT_const_value a \<Longrightarrow> DW_AT_location a = Some (SectionOffset List) \<Longrightarrow>
   Coverage opts a 0 = NaN"
  by (simp add: Coverage_def clampCovered_zero double_of_uint64_def to_double_zero)

lemma unat_less_64: "unat (w :: uint64_t) < 2 ^ 64"
  using unsigned_less [of w] by simp

lemma Coverage_list_range:
  assumes "\<not> DW_AT_const_value a" and "DW_AT_location a = Some (SectionOffset List)"
    and "BytesInScope \<noteq> 0"
  shows "\<exists>r. Coverage opts a BytesInScope = Finite r \<and> 0 \<le> r \<and> r < 101
    \<and> (clampCovered (listCovered opts List) BytesInScope = BytesInScope \<longrightarrow> 99 \<le> r)"
proof -
  let ?c = "unat (clampCovered (listCovered opts List) BytesInScope)"
  let ?b = "unat BytesInScope"
  have le: "?c \<le> ?b"
    using clampCovered_le by (simp add: word_le_nat_alt)
  have b: "0 < ?b"
    using assms(3) by (simp add: unat_gt_0)
  from percentage_range [OF le b unat_less_64] obtain r where
    r: "double_div (double_mul (Finite 100) (to_double (of_nat ?c))) (to_double (of_nat ?b))
        = Finite r" "0 \<le> r" "r < 101" "?c = ?b \<longrightarrow> 99 \<le> r"
    by blast
  have "Coverage opts a BytesInScope = Finite r"
    using r(1) by (simp only: Coverage_list [OF assms(1,2)])
  then show ?thesis
    using r(2,3,4) by auto
qed

lemma Coverage_range:
  "Coverage opts a BytesInScope = NaN
   \<or> (\<exists>r. Coverage opts a BytesInScope = Finite r \<and> 0 \<le> r \<and> r < 101)"
proof (cases "DW_AT_const_value a")
  case True
  then show ?thesis by (simp add: Coverage_def)
next
  case False
  show ?thesis
  proof (cases "DW_AT_location a")
    case None
    with False show ?thesis by (simp add: Coverage_def)
  next
    case (Some l)
    show ?thesis
    proof (cases l)
      case SingleLocation
      with False Some show ?thesis by (simp add: Coverage_def)
    next
      case (SectionOffset List)
      show ?thesis
      proof (cases "BytesInScope = 0")
        case True
        with False Some SectionOffset show ?thesis
          by (simp add: Coverage_zero_scope)
      next
        case nz: False
        from Coverage_list_range [OF False _ nz, of List opts] Some SectionOffset
        show ?thesis by blast
      qed
    qed
  qed
qed

lemma truncation_floor: "0 \<le> r \<Longrightarrow> truncation r = \<lfloor>r\<rfloor>"
  by (simp add: truncation_def)

lemma double_to_int_percentage:
  assumes "0 \<le> r" and "r < 101"
  shows "double_to_int (Finite r) = Inr \<lfloor>r\<rfloor>" and "0 \<le> \<lfloor>r\<rfloor>" and "\<lfloor>r\<rfloor> \<le> 100"
proof -
  show lo: "0 \<le> \<lfloor>r\<rfloor>" using assms(1) by simp
  have "\<lfloor>r\<rfloor> < 101" using assms(2) by (simp add: floor_less_iff)
  then show hi: "\<lfloor>r\<rfloor> \<le> 100" by simp
  show "double_to_int (Finite r) = Inr \<lfloor>r\<rfloor>"
    using lo hi assms(1) by (simp add: truncation_floor)
qed

lemma double_to_int_Coverage:
  assumes "double_to_int (Coverage opts a BytesInScope) = Inr p"
  shows "0 \<le> p \<and> p \<le> 100"
proof -
  from Coverage_range [of opts a BytesInScope] assms
  obtain r where r: "Coverage opts a BytesInScope = Finite r" "0 \<le> r" "r < 101"
    by auto
  have "double_to_int (Finite r) = Inr p"
    using assms r(1) by (simp only:)
  then have "p = \<lfloor>r\<rfloor>"
    by (simp only: double_to_int_percentage(1) [OF r(2,3)] sum.inject)
  then show ?thesis
    using double_to_int_percentage(2,3) [OF r(2,3)] by (simp only:)
qed

subsection \<open>The categories and the counter\<close>

lemma in_categories: "k \<in> set categories \<longleftrightarrow> 0 \<le> k \<and> k \<le> 11"
  unfolding categories_def by (simp; arith)

lemma PercentageKey_category:
  assumes "0 \<le> p" and "p \<le> 100"
  shows "PercentageKey p \<in> set categories"
proof -
  have "p sdiv 10 = p div 10"
    using assms(1) by (simp add: signed_divide_int_def sgn_if)
  moreover have "0 \<le> p div 10" and "p div 10 \<le> 10"
    using assms by presburger+
  ultimately show ?thesis
    by (simp add: PercentageKey_def largest_cov_category_def in_categories)
qed

lemma map_at_map_incr:
  "map_at (map_incr m k) k' = (if k' = k then map_at m k + 1 else map_at m k')"
  by (simp add: map_at_def map_incr_def)

lemma unat_succ_mod: "unat (w + 1 :: 64 word) mod 2 ^ 32 = (unat w + 1) mod 2 ^ 32"
proof -
  have "unat (w + 1) = (unat w + 1) mod 2 ^ 64"
    by (simp add: unat_word_ariths)
  moreover have "(unat w + 1) mod 2 ^ 64 mod 2 ^ 32 = (unat w + 1) mod (2 ^ 32 :: nat)"
    by (rule mod_mod_cancel) simp
  ultimately show ?thesis by simp
qed

lemma sum_list_map_incr_other:
  "k \<notin> set ks \<Longrightarrow>
   sum_list (map (\<lambda>k'. unat (map_at (map_incr m k) k')) ks)
     = sum_list (map (\<lambda>k'. unat (map_at m k')) ks)"
  by (induction ks) (auto simp add: map_at_map_incr)

lemma sum_list_map_incr:
  "distinct ks \<Longrightarrow> k \<in> set ks \<Longrightarrow>
   sum_list (map (\<lambda>k'. unat (map_at (map_incr m k) k')) ks) mod 2 ^ 32
     = (sum_list (map (\<lambda>k'. unat (map_at m k')) ks) + 1) mod 2 ^ 32"
proof (induction ks)
  case Nil
  then show ?case by simp
next
  case (Cons x ks)
  show ?case
  proof (cases "x = k")
    case True
    then have "k \<notin> set ks" using Cons.prems(1) by simp
    then have rest: "sum_list (map (\<lambda>k'. unat (map_at (map_incr m k) k')) ks)
        = sum_list (map (\<lambda>k'. unat (map_at m k')) ks)"
      by (rule sum_list_map_incr_other)
    have "(unat (map_at m k + 1) + sum_list (map (\<lambda>k'. unat (map_at m k')) ks)) mod 2 ^ 32
        = (unat (map_at m k + 1) mod 2 ^ 32
            + sum_list (map (\<lambda>k'. unat (map_at m k')) ks)) mod 2 ^ 32"
      by (simp add: mod_add_left_eq)
    also have "\<dots> = ((unat (map_at m k) + 1) mod 2 ^ 32
            + sum_list (map (\<lambda>k'. unat (map_at m k')) ks)) mod 2 ^ 32"
      by (simp only: unat_succ_mod)
    also have "\<dots> = (unat (map_at m k) + 1
            + sum_list (map (\<lambda>k'. unat (map_at m k')) ks)) mod 2 ^ 32"
      by (simp add: mod_add_left_eq)
    finally show ?thesis
      using True rest by (simp add: map_at_map_incr add.commute add.left_commute)
  next
    case False
    then have "k \<in> set ks" using Cons.prems(2) by simp
    moreover have "distinct ks" using Cons.prems(1) by simp
    ultimately have ih: "sum_list (map (\<lambda>k'. unat (map_at (map_incr m k) k')) ks) mod 2 ^ 32
        = (sum_list (map (\<lambda>k'. unat (map_at m k')) ks) + 1) mod 2 ^ 32"
      using Cons.IH by simp
    have "(unat (map_at m x) + sum_list (map (\<lambda>k'. unat (map_at (map_incr m k) k')) ks)) mod 2 ^ 32
        = (unat (map_at m x)
            + sum_list (map (\<lambda>k'. unat (map_at (map_incr m k) k')) ks) mod 2 ^ 32) mod 2 ^ 32"
      by (simp add: mod_add_right_eq)
    also have "\<dots> = (unat (map_at m x)
            + (sum_list (map (\<lambda>k'. unat (map_at m k')) ks) + 1) mod 2 ^ 32) mod 2 ^ 32"
      by (simp only: ih)
    also have "\<dots> = (unat (map_at m x)
            + (sum_list (map (\<lambda>k'. unat (map_at m k')) ks) + 1)) mod 2 ^ 32"
      by (simp add: mod_add_right_eq)
    finally show ?thesis
      using False by (simp add: map_at_map_incr)
  qed
qed

lemma distinct_categories: "distinct categories"
  by (simp add: categories_def)

lemma category_sum_map_incr:
  "k \<in> set categories \<Longrightarrow>
   category_sum (map_incr m k) mod 2 ^ 32 = (category_sum m + 1) mod 2 ^ 32"
  unfolding category_sum_def by (rule sum_list_map_incr [OF distinct_categories])

lemma unat_succ_32: "unat (w + 1 :: 32 word) = (unat w + 1) mod 2 ^ 32"
  by (simp add: unat_word_ariths)

lemma histogram_invariant_countVariable:
  assumes "histogram_invariant st" and "0 \<le> p" and "p \<le> 100"
  shows "histogram_invariant (countVariable p st)"
proof -
  have k: "PercentageKey p \<in> set categories"
    using assms(2,3) by (rule PercentageKey_category)
  have d: "dom (LocStatistics st) = set categories"
    and c: "category_sum (LocStatistics st) mod 2 ^ 32 = unat (CumulNumOfVars st)"
    using assms(1) by (simp_all add: histogram_invariant_def)
  have "dom (map_incr (LocStatistics st) (PercentageKey p)) = set categories"
    using k d by (auto simp add: map_incr_def)
  moreover have "category_sum (map_incr (LocStatistics st) (PercentageKey p)) mod 2 ^ 32
      = unat (CumulNumOfVars st + 1)"
  proof -
    have "(category_sum (LocStatistics st) + 1) mod 2 ^ 32
        = (category_sum (LocStatistics st) mod 2 ^ 32 + 1) mod 2 ^ 32"
      by (rule mod_add_left_eq [symmetric])
    then show ?thesis
      by (simp only: category_sum_map_incr [OF k] unat_succ_32 c)
  qed
  ultimately show ?thesis
    by (simp add: histogram_invariant_def countVariable_def)
qed

lemma zeroCategories_from_0:
  "zeroCategories 0 Map.empty = (\<lambda>k. if k \<in> set categories then Some 0 else None)"
  by (auto simp add: zeroCategories.simps largest_cov_category_def categories_def fun_eq_iff)

lemma histogram_invariant_initialStats: "histogram_invariant initialStats"
  by (auto simp add: histogram_invariant_def initialStats_def zeroCategories_from_0
      dom_def category_sum_def map_at_def split: if_splits) (simp add: categories_def)

subsection \<open>What a run keeps\<close>

text \<open>
  A property of the statistics that every counted variable keeps is kept by the
  traversal of a tree and by the loop over the units, by induction along the recursion
  of \<open>collectStatsRecursive\<close> and \<open>traverseChildren\<close>.
\<close>

lemma collectLocStatsForDie_result:
  assumes "collectLocStatsForDie opts ParentTag D ScopeLowPC BytesInScope st = Inr st'"
  shows "st' = st \<or> (\<exists>p. 0 \<le> p \<and> p \<le> 100 \<and> st' = countVariable p st)"
proof (cases "double_to_int (Coverage opts (attrs D) BytesInScope)")
  case (Inl e)
  with assms show ?thesis
    by (simp add: collectLocStatsForDie_def split: if_splits)
next
  case (Inr p)
  then have "0 \<le> p \<and> p \<le> 100" by (rule double_to_int_Coverage)
  with assms Inr show ?thesis
    by (auto simp add: collectLocStatsForDie_def split: if_splits)
qed

lemma traversal_preserves:
  assumes step: "\<And>p st. 0 \<le> p \<Longrightarrow> p \<le> 100 \<Longrightarrow> P st \<Longrightarrow> P (countVariable p st)"
  shows "collectStatsRecursive opts ParentTag D ScopeLowPC BytesInScope st = Inr st'
           \<Longrightarrow> P st \<Longrightarrow> P st'"
    and "traverseChildren opts ParentTag Ds ScopeLowPC BytesInScope st = Inr st'
           \<Longrightarrow> P st \<Longrightarrow> P st'"
proof (induction opts ParentTag D ScopeLowPC BytesInScope st
         and opts ParentTag Ds ScopeLowPC BytesInScope st
       arbitrary: st' and st'
       rule: collectStatsRecursive_traverseChildren.induct)
  case (1 opts ParentTag Tag a cs ScopeLowPC BytesInScope st)
  show ?case
  proof (cases "Tag = DW_TAG_subprogram \<or> Tag = DW_TAG_inlined_subroutine
                  \<or> Tag = DW_TAG_lexical_block")
    case scope: True
    show ?thesis
    proof (cases "DW_AT_declaration a \<or> DW_AT_inline a
                    \<or> (IgnoreInlined opts \<and> Tag = DW_TAG_inlined_subroutine)
                    \<or> AddressRanges a = None")
      case True
      with scope "1.prems" show ?thesis by (auto split: if_splits)
    next
      case False
      then obtain Ranges where r: "AddressRanges a = Some Ranges" by auto
      with scope False "1.prems"(1)
      have "traverseChildren opts Tag cs (getLowPC a) (sumRanges Ranges 0) st = Inr st'"
        by auto
      with "1.IH"(1) [of Ranges st'] scope False r "1.prems"(2) show ?thesis by auto
    qed
  next
    case noscope: False
    show ?thesis
    proof (cases "Tag = DW_TAG_variable \<or> Tag = DW_TAG_formal_parameter")
      case True
      with noscope "1.prems"(1) obtain st1 where
        s1: "collectLocStatsForDie opts ParentTag (Die Tag a cs) ScopeLowPC BytesInScope st = Inr st1"
        and s2: "traverseChildren opts Tag cs ScopeLowPC BytesInScope st1 = Inr st'"
        by (auto split: sum.splits)
      from collectLocStatsForDie_result [OF s1] step "1.prems"(2) have "P st1" by auto
      with "1.IH"(2) [of st1 st'] noscope True s1 s2 show ?thesis by auto
    next
      case False
      with noscope "1.prems"(1)
      have "traverseChildren opts Tag cs ScopeLowPC BytesInScope st = Inr st'" by auto
      with "1.IH"(3) [of st'] noscope False "1.prems"(2) show ?thesis by auto
    qed
  qed
next
  case (2 opts ParentTag ScopeLowPC BytesInScope st)
  then show ?case by simp
next
  case (3 opts ParentTag Child Siblings ScopeLowPC BytesInScope st)
  from "3.prems"(1) obtain st1 where
    s1: "collectStatsRecursive opts ParentTag Child ScopeLowPC BytesInScope st = Inr st1"
    and s2: "traverseChildren opts ParentTag Siblings ScopeLowPC BytesInScope st1 = Inr st'"
    by (auto split: sum.splits)
  from "3.IH"(1) [OF s1 "3.prems"(2)] have "P st1" .
  with "3.IH"(2) [OF s1 s2] show ?case .
qed

lemma collectUnits_preserves:
  assumes step: "\<And>p st. 0 \<le> p \<Longrightarrow> p \<le> 100 \<Longrightarrow> P st \<Longrightarrow> P (countVariable p st)"
  shows "collectUnits opts CUs st = Inr st' \<Longrightarrow> P st \<Longrightarrow> P st'"
proof (induction opts CUs st rule: collectUnits.induct)
  case (1 opts st)
  then show ?case by simp
next
  case (2 opts CUs st)
  then show ?case by simp
next
  case (3 opts CUDie CUs st)
  from "3.prems"(1) obtain st1 where
    s1: "collectStatsRecursive opts DW_TAG_null CUDie 0 0 st = Inr st1"
    and s2: "collectUnits opts CUs st1 = Inr st'"
    by (auto split: sum.splits)
  from traversal_preserves(1) [of P, OF step s1 "3.prems"(2)] have "P st1" by simp
  with "3.IH" [OF s1 s2] show ?case .
qed

lemma histogram_invariant_run:
  assumes "collectUnits opts CUs initialStats = Inr st"
  shows "histogram_invariant st"
proof (rule collectUnits_preserves [of histogram_invariant opts CUs initialStats st])
  show "collectUnits opts CUs initialStats = Inr st" by (rule assms)
  show "histogram_invariant initialStats" by (rule histogram_invariant_initialStats)
next
  fix p :: int and s :: stats
  assume "0 \<le> p" "p \<le> 100" "histogram_invariant s"
  then show "histogram_invariant (countVariable p s)"
    by (simp add: histogram_invariant_countVariable)
qed

subsection \<open>The scenario of the specification\<close>

text \<open>
  One function of 100 bytes with one variable whose list covers 80 of them: the
  variable is counted with 80, in category 9, and the average is 80.
\<close>

lemma sized_unit_run:
  "collectUnits no_toggles [Some sized_unit] initialStats = Inr (countVariable 80 initialStats)"
  by (simp add: sized_unit_def sized_function_def
      listed_variable_def no_attributes_def no_toggles_def getLowPC_def
      collectLocStatsForDie_def Coverage_def listCovered_def clampCovered_def
      double_of_uint64_def truncation_def to_double_numeral)

lemma floor_divide_numeral_rat:
  "\<lfloor>numeral a / numeral b :: rat\<rfloor> = numeral a div numeral b"
  using floor_divide_of_int_eq [of "numeral a" "numeral b", where ?'a = rat] by simp

lemma sized_unit_report:
  "PercentageKey 80 = 9"
  "map_at (LocStatistics (countVariable 80 initialStats)) 9 = 1"
  "CumulNumOfVars (countVariable 80 initialStats) = 1"
  "averageCoverage (countVariable 80 initialStats) = Inr 80"
  by (simp_all add: PercentageKey_def signed_divide_int_def countVariable_def initialStats_def
      map_at_def map_incr_def zeroCategories_from_0 categories_def averageCoverage_def
      double_of_int_def double_of_unsigned_def truncation_def floor_divide_numeral_rat
      to_double_numeral to_double_one to_double_zero)

subsection \<open>The state after a run\<close>

lemma category_sum_run:
  assumes "collectUnits opts CUs initialStats = Inr st"
    and "category_sum (LocStatistics st) < 2 ^ 32"
  shows "category_sum (LocStatistics st) = unat (CumulNumOfVars st)"
  using histogram_invariant_run [OF assms(1)] assms(2)
  by (simp add: histogram_invariant_def)

subsection \<open>The sum over a location list\<close>

lemma coverEntries_unat:
  "unat (coverEntries opts Entries Covered)
     = (unat Covered + summed_lengths opts Entries) mod 2 ^ 64"
proof (induction Entries arbitrary: Covered)
  case Nil
  have "unat Covered < 2 ^ 64"
    using unsigned_less [of Covered] by simp
  then show ?case by (simp add: summed_lengths_def)
next
  case (Cons Entry Entries)
  show ?case
  proof (cases "IgnoreEntryValues opts \<and> IsEntryValue (Loc Entry)")
    case True
    then show ?thesis
      using Cons.IH [of Covered] by (simp add: summed_lengths_def)
  next
    case False
    let ?len = "unat (End Entry - Begin Entry)"
    have "unat (coverEntries opts (Entry # Entries) Covered)
        = (unat (Covered + (End Entry - Begin Entry)) + summed_lengths opts Entries) mod 2 ^ 64"
      using False Cons.IH [of "Covered + (End Entry - Begin Entry)"] by auto
    also have "unat (Covered + (End Entry - Begin Entry)) = (unat Covered + ?len) mod 2 ^ 64"
      by (simp add: unat_word_ariths)
    also have "((unat Covered + ?len) mod 2 ^ 64 + summed_lengths opts Entries) mod 2 ^ 64
        = (unat Covered + ?len + summed_lengths opts Entries) mod 2 ^ 64"
      by (rule mod_add_left_eq)
    also have "unat Covered + ?len + summed_lengths opts Entries
        = unat Covered + summed_lengths opts (Entry # Entries)"
      using False by (auto simp add: summed_lengths_def)
    finally show ?thesis .
  qed
qed

lemma listCovered_summed:
  "unat (listCovered opts (Some Entries)) = summed_lengths opts Entries mod 2 ^ 64"
  by (simp add: listCovered_def coverEntries_unat)

subsection \<open>A scope that is covered entirely\<close>

lemma quotient_full_exact:
  fixes b :: nat
  assumes "0 < b" and "b < 2 ^ 46"
  shows "double_div (double_mul (Finite 100) (to_double (of_nat b))) (to_double (of_nat b))
    = Finite 100"
proof -
  have "b < 2 ^ 53"
    using assms(2) by (rule less_trans) simp
  then have b: "to_double (of_nat b) = Finite (of_nat b)"
    by (rule to_double_of_nat)
  have "100 * b < 100 * 2 ^ 46"
    using assms(2) by simp
  then have "100 * b < 2 ^ 53"
    by (rule less_trans) simp
  then have "to_double (of_nat (100 * b)) = Finite (of_nat (100 * b))"
    by (rule to_double_of_nat)
  then have m: "to_double (100 * of_nat b) = Finite (100 * of_nat b)"
    by simp
  have h: "to_double 100 = Finite 100"
    by (simp add: to_double_numeral)
  show ?thesis
    using assms(1) by (simp add: b m h)
qed

lemma clamped_counted:
  assumes a: "clampCovered (listCovered opts List) BytesInScope = BytesInScope"
    and p: "\<not> caught_by_filter opts ParentTag D"
    and k: "\<not> DW_AT_const_value (attrs D)"
    and l: "DW_AT_location (attrs D) = Some (SectionOffset List)"
    and nz: "BytesInScope \<noteq> 0"
  shows "\<exists>c. (c = 99 \<or> c = 100)
    \<and> collectLocStatsForDie opts ParentTag D ScopeLowPC BytesInScope st
        = Inr (countVariable c st)"
proof -
  from Coverage_list_range [OF k l nz, of opts] a obtain r where
    r: "Coverage opts (attrs D) BytesInScope = Finite r" "0 \<le> r" "r < 101" "99 \<le> r"
    by auto
  have "99 \<le> \<lfloor>r\<rfloor>" using r(4) by (simp add: le_floor_iff)
  moreover have "\<lfloor>r\<rfloor> \<le> 100" using r(2,3) by (rule double_to_int_percentage(3))
  ultimately have c: "\<lfloor>r\<rfloor> = 99 \<or> \<lfloor>r\<rfloor> = 100" by linarith
  have "double_to_int (Coverage opts (attrs D) BytesInScope) = Inr \<lfloor>r\<rfloor>"
    using double_to_int_percentage(1) [OF r(2,3)] r(1) by (simp only:)
  then have "collectLocStatsForDie opts ParentTag D ScopeLowPC BytesInScope st
      = Inr (countVariable \<lfloor>r\<rfloor> st)"
    using p by (simp add: collectLocStatsForDie_passed)
  with c show ?thesis by blast
qed

lemma clamped_counted_100:
  assumes a: "clampCovered (listCovered opts List) BytesInScope = BytesInScope"
    and p: "\<not> caught_by_filter opts ParentTag D"
    and k: "\<not> DW_AT_const_value (attrs D)"
    and l: "DW_AT_location (attrs D) = Some (SectionOffset List)"
    and nz: "BytesInScope \<noteq> 0" and small: "unat BytesInScope < 2 ^ 46"
  shows "collectLocStatsForDie opts ParentTag D ScopeLowPC BytesInScope st
        = Inr (countVariable 100 st)"
proof -
  have "0 < unat BytesInScope"
    using nz by (simp add: unat_gt_0)
  then have "Coverage opts (attrs D) BytesInScope = Finite 100"
    using small by (simp only: Coverage_list [OF k l] a quotient_full_exact)
  then show ?thesis
    using p by (simp add: collectLocStatsForDie_passed double_to_int_100 del: double_to_int.simps)
qed

lemma clampCovered_unat:
  "unat (clampCovered Covered BytesInScope) = min (unat Covered) (unat BytesInScope)"
  by (simp add: clampCovered_def word_less_nat_alt min_def)

subsection \<open>The table and the footer\<close>





lemma double_div_nat:
  "0 < n \<Longrightarrow>
   double_div (Finite (of_nat c)) (Finite (of_nat n)) = to_double (of_nat c / of_nat n)"
  by simp










subsection \<open>The statistics of a list of percentages\<close>








subsection \<open>The percentages of a run\<close>








subsection \<open>Rounding at work\<close>

text \<open>
  Three places where the rounding shows. The conversion of \<open>2 ^ 54 - 1\<close> to
  \<open>double\<close> gives \<open>2 ^ 54\<close>. A variable whose list covers the whole of a scope of
  360320036696953 bytes is counted with 99: the product by 100 is rounded down by 4, and
  the quotient is the double just below 100. With 29 of 100 variables in category 0 the
  table shows 28 per cent for it: the quotient 0.29 is rounded down, and so is its
  product by 100.
\<close>

lemma conversion_rounds: "to_double 18014398509481983 = Finite 18014398509481984"
  by code_simp

lemma full_scope_counted_99:
  "double_to_int
     (double_div (double_mul (Finite 100) (to_double 360320036696953))
        (to_double 360320036696953)) = Inr 99"
  by code_simp

lemma vast_variable_counted_99:
  "collectLocStatsForDie no_toggles DW_TAG_subprogram vast_variable 0 360320036696953
     initialStats = Inr (countVariable 99 initialStats)"
  by (simp add: collectLocStatsForDie_def Coverage_def vast_variable_def no_attributes_def
      no_toggles_def listCovered_def clampCovered_def double_of_uint64_def
      full_scope_counted_99 del: double_to_int.simps)

lemma row_percentage_28:
  "double_to_int (double_mul (double_div (Finite 29) (Finite 100)) (Finite 100)) = Inr 28"
  by code_simp

lemma hundred_counted_row: "rowPercentage hundred_counted 0 = Inr 28"
proof -
  have c: "double_of_uint64 (map_at (LocStatistics hundred_counted) 0) = Finite 29"
    by (simp add: hundred_counted_def map_at_def double_of_uint64_def to_double_numeral)
  have n: "double_of_unsigned (CumulNumOfVars hundred_counted) = Finite 100"
    by (simp add: hundred_counted_def double_of_unsigned_def to_double_numeral)
  show ?thesis
    by (simp only: rowPercentage_def c n row_percentage_28)
qed

section \<open>Properties\<close>

text \<open>
  C1. The claim: for an entity that passes the filters, has no constant value and a
  location that is a section offset, a scope of 0 bytes gives the coverage 0, the
  division being guarded. The code has no guard: the covered bytes are clamped to 0, the
  quotient of 0 by 0 is a NaN, and its conversion to \<open>int\<close> is undefined.
\<close>

theorem C1_zero_scope_not_guarded:
  assumes "getTag D = DW_TAG_variable \<or> getTag D = DW_TAG_formal_parameter"
    and "\<not> caught_by_filter opts ParentTag D"
    and "\<not> DW_AT_const_value (attrs D)"
    and "DW_AT_location (attrs D) = Some (SectionOffset List)"
  shows "Coverage opts (attrs D) 0 = NaN
    \<and> collectLocStatsForDie opts ParentTag D ScopeLowPC 0 st = Inl UndefinedConversion"
  using assms by (simp add: collectLocStatsForDie_passed Coverage_zero_scope)

theorem C1_zero_scope_not_guarded_witness:
  "Coverage no_toggles (attrs listed_variable) 0 = NaN
   \<and> collectLocStatsForDie no_toggles DW_TAG_subprogram listed_variable 0 0 initialStats
       = Inl UndefinedConversion"
  using C1_zero_scope_not_guarded [of listed_variable no_toggles DW_TAG_subprogram
      "Some [\<lparr>Begin = 0, End = 50, Loc = []\<rparr>, \<lparr>Begin = 60, End = 90, Loc = []\<rparr>]"
      0 initialStats]
  by (simp add: listed_variable_def no_attributes_def no_toggles_def caught_by_filter_def)

text \<open>
  C2. The claim: with both toggles set the program prints a diagnostic, does not
  traverse and exits with a status that is not 0. The code prints the diagnostic and
  does not traverse, but line 362 returns 0.
\<close>

theorem C2_incompatible_toggles_exit_zero:
  assumes "OnlyFormalParameters cl" and "OnlyVariables cl"
    and "\<not> Help cl" and "InputFilename cl \<noteq> []"
  shows "main env cl =
     Inr \<lparr>exit_status = 0,
          diagnostics =
            [''incompatible arguments: specifying both -only-formal-parameters and -only-variables is not allowed.''],
          help_printed = False, report = None\<rparr>"
  using assms by (simp add: main_def)

theorem C2_incompatible_toggles_exit_zero_witness:
  "main working_services both_toggles =
     Inr \<lparr>exit_status = 0,
          diagnostics =
            [''incompatible arguments: specifying both -only-formal-parameters and -only-variables is not allowed.''],
          help_printed = False, report = None\<rparr>"
  using C2_incompatible_toggles_exit_zero [of both_toggles working_services]
  by (simp add: both_toggles_def)

text \<open>
  C3. A function, inlined function or lexical block that is a declaration, or carries
  the inline attribute, or whose address ranges cannot be obtained, leaves the
  statistics as they were, whatever stands below it, and the traversal goes on with its
  siblings.
\<close>

theorem C3_subtree_abandoned:
  assumes "Tag = DW_TAG_subprogram \<or> Tag = DW_TAG_inlined_subroutine
             \<or> Tag = DW_TAG_lexical_block"
    and "DW_AT_declaration a \<or> DW_AT_inline a \<or> AddressRanges a = None"
  shows "collectStatsRecursive opts ParentTag (Die Tag a cs) ScopeLowPC BytesInScope st = Inr st
    \<and> traverseChildren opts ParentTag (Die Tag a cs # Siblings) ScopeLowPC BytesInScope st
        = traverseChildren opts ParentTag Siblings ScopeLowPC BytesInScope st"
  using assms by auto

theorem C3_subtree_abandoned_witness:
  "collectStatsRecursive no_toggles DW_TAG_compile_unit declared_function 0 0 initialStats
     = Inr initialStats
   \<and> traverseChildren no_toggles DW_TAG_compile_unit [declared_function, sized_function] 0 0
       initialStats
     = traverseChildren no_toggles DW_TAG_compile_unit [sized_function] 0 0 initialStats"
  using C3_subtree_abandoned [of DW_TAG_subprogram "no_attributes\<lparr>DW_AT_declaration := True\<rparr>"
      no_toggles DW_TAG_compile_unit "[listed_variable]" 0 0 initialStats "[sized_function]"]
  by (simp add: declared_function_def)

text \<open>
  C4. For every integer percentage from 0 to 100 the category is 0 for 0, 11 for 100 and
  \<open>p div 10 + 1\<close> otherwise, so it is one of the twelve categories 0 to 11; 5 falls
  in category 1, 10 in category 2 and 99 in category 10.
\<close>

theorem C4_bucketing:
  "(0 \<le> p \<and> p \<le> 100 \<longrightarrow>
      PercentageKey p = (if p = 0 then 0 else if p = 100 then 11 else p div 10 + 1)
      \<and> 0 \<le> PercentageKey p \<and> PercentageKey p \<le> 11)
   \<and> PercentageKey 0 = 0 \<and> PercentageKey 5 = 1 \<and> PercentageKey 10 = 2
   \<and> PercentageKey 99 = 10 \<and> PercentageKey 100 = 11"
proof -
  have "PercentageKey p = (if p = 0 then 0 else if p = 100 then 11 else p div 10 + 1)"
    if "0 \<le> p"
    using that
    by (simp add: PercentageKey_def largest_cov_category_def signed_divide_int_def sgn_if)
  moreover have "0 \<le> PercentageKey p \<and> PercentageKey p \<le> 11"
    if "0 \<le> p" and "p \<le> 100"
    using PercentageKey_category [OF that] by (simp add: in_categories)
  moreover have "PercentageKey 0 = 0 \<and> PercentageKey 5 = 1 \<and> PercentageKey 10 = 2
      \<and> PercentageKey 99 = 10 \<and> PercentageKey 100 = 11"
    by (simp add: PercentageKey_def largest_cov_category_def signed_divide_int_def)
  ultimately show ?thesis by simp
qed

theorem C4_bucketing_witness:
  "(0::int) \<le> 57 \<and> (57::int) \<le> 100 \<and> PercentageKey 57 = 6"
  using C4_bucketing [of 57] by simp

text \<open>
  C5. The claim: after any run the twelve counts add up to the counter of processed
  variables, and the twelve keys are present. A run that ends in a defined state keeps
  both, the sum up to the 32 bits of the counter (\<open>histogram_invariant_run\<close>,
  \<open>category_sum_run\<close>). The run over a unit whose function has no address range and
  holds a variable with a location list does not end in a defined state: it stops at
  the conversion of C1.
\<close>

theorem C5_zero_scope_run_undefined:
  "collectUnits no_toggles [Some rangeless_unit] initialStats = Inl UndefinedConversion
   \<and> collectLocstats no_toggles [Some rangeless_unit] = Inl UndefinedConversion"
  by (simp add: collectLocstats_def rangeless_unit_def rangeless_function_def
      listed_variable_def no_attributes_def no_toggles_def getLowPC_def
      collectLocStatsForDie_def Coverage_def listCovered_def clampCovered_def
      double_of_uint64_def to_double_zero)

text \<open>
  C6. The claim: when the summed lengths of the sub-ranges exceed the size of the
  scope, the covered bytes are exactly the size of the scope. \<open>Covered\<close> is a
  \<open>uint64_t\<close>, so the program compares the sum modulo \<open>2 ^ 64\<close>: two sub-ranges
  of \<open>2 ^ 63\<close> and \<open>2 ^ 63 + 50\<close> bytes in a scope of 100 bytes leave 50 covered
  bytes, not 100.
\<close>

theorem C6_wrapped_sum_not_clamped:
  "unat (100 :: uint64_t) < summed_lengths no_toggles wrapping_entries
   \<and> summed_lengths no_toggles wrapping_entries = 2 ^ 64 + 50
   \<and> clampCovered (listCovered no_toggles (Some wrapping_entries)) 100 = 50
   \<and> clampCovered (listCovered no_toggles (Some wrapping_entries)) 100 \<noteq> 100
   \<and> collectLocStatsForDie no_toggles DW_TAG_subprogram wrapping_variable 0 100 initialStats
       = Inr (countVariable 50 initialStats)"
  by (simp add: summed_lengths_def wrapping_entries_def wrapping_variable_def no_toggles_def
      no_attributes_def listCovered_def clampCovered_def collectLocStatsForDie_def
      Coverage_def double_of_uint64_def to_double_numeral truncation_def)

text \<open>
  C6, as the code has it. The covered bytes are the smaller of the size of the scope
  and the sum of the lengths modulo \<open>2 ^ 64\<close>, the sub-ranges left out for their
  entry value not being summed: when that sum exceeds the size of the scope they are
  exactly the size of the scope, and for no list do they exceed it. The anomaly raises
  no error: in a scope of non-zero size the entity is counted, with 100 when the scope
  has fewer than \<open>2 ^ 46\<close> bytes and with 99 or 100 beyond, where the quotient is
  rounded (\<open>vast_variable_counted_99\<close>). In a scope of 0 bytes the division of C1 is
  met, with or without the anomaly.
\<close>

theorem C6_clamped_to_scope_modulo:
  "unat (clampCovered (listCovered opts (Some Entries)) BytesInScope)
     = min (summed_lengths opts Entries mod 2 ^ 64) (unat BytesInScope)
   \<and> (unat BytesInScope < summed_lengths opts Entries mod 2 ^ 64 \<longrightarrow>
        clampCovered (listCovered opts (Some Entries)) BytesInScope = BytesInScope)
   \<and> clampCovered (listCovered opts List) BytesInScope \<le> BytesInScope
   \<and> (unat BytesInScope < summed_lengths opts Entries mod 2 ^ 64
        \<and> \<not> caught_by_filter opts ParentTag D \<and> \<not> DW_AT_const_value (attrs D)
        \<and> DW_AT_location (attrs D) = Some (SectionOffset (Some Entries))
        \<and> BytesInScope \<noteq> 0 \<longrightarrow>
      (\<exists>c. (c = 99 \<or> c = 100)
         \<and> collectLocStatsForDie opts ParentTag D ScopeLowPC BytesInScope st
             = Inr (countVariable c st))
      \<and> (unat BytesInScope < 2 ^ 46 \<longrightarrow>
           collectLocStatsForDie opts ParentTag D ScopeLowPC BytesInScope st
             = Inr (countVariable 100 st)))"
proof -
  have m: "unat (clampCovered (listCovered opts (Some Entries)) BytesInScope)
      = min (summed_lengths opts Entries mod 2 ^ 64) (unat BytesInScope)"
    by (simp only: clampCovered_unat listCovered_summed)
  have clamp: "clampCovered (listCovered opts (Some Entries)) BytesInScope = BytesInScope"
    if "unat BytesInScope < summed_lengths opts Entries mod 2 ^ 64"
  proof -
    have "unat (clampCovered (listCovered opts (Some Entries)) BytesInScope)
        = unat BytesInScope"
      using that by (simp only: m min_def) simp
    then show ?thesis by (rule word_unat_eq_iff [THEN iffD2])
  qed
  show ?thesis
    using m clamp clampCovered_le [of "listCovered opts List" BytesInScope]
      clamped_counted [of opts "Some Entries" BytesInScope ParentTag D ScopeLowPC st]
      clamped_counted_100 [of opts "Some Entries" BytesInScope ParentTag D ScopeLowPC st]
    by blast
qed

theorem C6_clamped_to_scope_modulo_witness:
  "summed_lengths ignore_entry_values entry_value_entries = 80
   \<and> unat (60 :: uint64_t) < summed_lengths ignore_entry_values entry_value_entries mod 2 ^ 64
   \<and> clampCovered (listCovered ignore_entry_values (Some entry_value_entries)) 60 = 60
   \<and> clampCovered (listCovered ignore_entry_values (Some entry_value_entries)) 100 = 80
   \<and> \<not> caught_by_filter ignore_entry_values DW_TAG_subprogram entry_value_variable
   \<and> collectLocStatsForDie ignore_entry_values DW_TAG_subprogram entry_value_variable 0 60
         initialStats
       = Inr (countVariable 100 initialStats)"
proof -
  have s: "summed_lengths ignore_entry_values entry_value_entries = 80"
    by (simp add: summed_lengths_def ignore_entry_values_def entry_value_entries_def
        no_toggles_def IsEntryValue_def DW_OP_entry_value_def DW_OP_GNU_entry_value_def)
  have c: "clampCovered (listCovered ignore_entry_values (Some entry_value_entries)) 100 = 80"
    by (simp add: listCovered_def clampCovered_def ignore_entry_values_def
        entry_value_entries_def no_toggles_def IsEntryValue_def DW_OP_entry_value_def
        DW_OP_GNU_entry_value_def)
  have p: "\<not> caught_by_filter ignore_entry_values DW_TAG_subprogram entry_value_variable"
    by (simp add: caught_by_filter_def entry_value_variable_def no_attributes_def
        ignore_entry_values_def no_toggles_def)
  have l: "DW_AT_location (attrs entry_value_variable)
      = Some (SectionOffset (Some entry_value_entries))"
    and k: "\<not> DW_AT_const_value (attrs entry_value_variable)"
    by (simp_all add: entry_value_variable_def no_attributes_def)
  show ?thesis
    using C6_clamped_to_scope_modulo [where BytesInScope = 60 and opts = ignore_entry_values
        and List = "Some entry_value_entries" and Entries = entry_value_entries
        and ParentTag = DW_TAG_subprogram and D = entry_value_variable and ScopeLowPC = 0
        and st = initialStats]
      s c p l k
    by simp
qed



text \<open>
  C8. An entity that passes the filters and has a constant value has the coverage 100,
  whatever its location attribute and whatever the size of the scope: it is counted with
  100.
\<close>

theorem C8_constant_is_fully_covered:
  assumes "getTag D = DW_TAG_variable \<or> getTag D = DW_TAG_formal_parameter"
    and "\<not> caught_by_filter opts ParentTag D"
    and "DW_AT_const_value (attrs D)"
  shows "Coverage opts (attrs D) BytesInScope = Finite 100
    \<and> collectLocStatsForDie opts ParentTag D ScopeLowPC BytesInScope st
        = Inr (countVariable 100 st)"
proof -
  have c: "Coverage opts (attrs D) BytesInScope = Finite 100"
    using assms(3) by (simp add: Coverage_def)
  show ?thesis
    using assms(2)
    by (simp add: collectLocStatsForDie_passed c double_to_int_100 del: double_to_int.simps)
qed

theorem C8_constant_is_fully_covered_witness:
  "Coverage no_toggles (attrs constant_variable) 0 = Finite 100
   \<and> collectLocStatsForDie no_toggles DW_TAG_subprogram constant_variable 0 0 initialStats
       = Inr (countVariable 100 initialStats)"
  using C8_constant_is_fully_covered [of constant_variable no_toggles DW_TAG_subprogram
      0 0 initialStats]
  by (simp add: constant_variable_def no_attributes_def no_toggles_def caught_by_filter_def)

text \<open>
  C9. An entity caught by one of the five filters leaves the statistics as they were:
  \<open>collectLocStatsForDie\<close> returns them unchanged, and the traversal of a variable or
  formal parameter that is caught only goes on to its children. When the counter of
  processed variables is 0 the report is the one line \<open>No coverage recorded.\<close> and
  nothing else.
\<close>

theorem C9_filtered_not_counted:
  "(caught_by_filter opts ParentTag D \<longrightarrow>
      collectLocStatsForDie opts ParentTag D ScopeLowPC BytesInScope st = Inr st)
   \<and> (caught_by_filter opts ParentTag (Die Tag a cs)
        \<and> (Tag = DW_TAG_variable \<or> Tag = DW_TAG_formal_parameter) \<longrightarrow>
      collectStatsRecursive opts ParentTag (Die Tag a cs) ScopeLowPC BytesInScope st
        = traverseChildren opts Tag cs ScopeLowPC BytesInScope st)
   \<and> (CumulNumOfVars st' = 0 \<longrightarrow>
      outputLocStats st' = Inr [Str ''No coverage recorded.\<newline>''])"
  by (auto simp add: collectLocStatsForDie_caught outputLocStats_def)

theorem C9_filtered_not_counted_witness:
  "caught_by_filter only_variables DW_TAG_subprogram plain_parameter
   \<and> collectLocStatsForDie only_variables DW_TAG_subprogram plain_parameter 0 16 initialStats
       = Inr initialStats
   \<and> collectStatsRecursive only_variables DW_TAG_subprogram plain_parameter 0 16 initialStats
       = Inr initialStats
   \<and> CumulNumOfVars initialStats = 0
   \<and> outputLocStats initialStats = Inr [Str ''No coverage recorded.\<newline>'']
   \<and> collectLocstats only_variables [Some parameter_unit]
       = Inr [Str ''No coverage recorded.\<newline>'']"
proof -
  have c: "caught_by_filter only_variables DW_TAG_subprogram plain_parameter"
    by (simp add: caught_by_filter_def only_variables_def plain_parameter_def)
  have n: "CumulNumOfVars initialStats = 0"
    by (simp add: initialStats_def)
  have u: "collectUnits only_variables [Some parameter_unit] initialStats = Inr initialStats"
    by (simp add: parameter_unit_def plain_parameter_def collectLocStatsForDie_def
        only_variables_def no_toggles_def no_attributes_def)
  show ?thesis
    using C9_filtered_not_counted [where opts = only_variables and ParentTag = DW_TAG_subprogram
        and D = plain_parameter and Tag = DW_TAG_formal_parameter
        and a = "no_attributes\<lparr>DW_AT_location := Some SingleLocation\<rparr>" and cs = "[]"
        and ScopeLowPC = 0 and BytesInScope = 16 and st = initialStats and st' = initialStats]
      c n u
    by (simp add: plain_parameter_def collectLocstats_def)
qed



end
